theory Spec2Isabelle
  imports Main
begin

section \<open>Values exchanged with the remote API\<close>

text \<open>
  The two API clients the resource code switches between
  (\<open>getContainerApiVersion\<close> with base version \<open>v1\<close> returns one of them).
\<close>

datatype api_version = v1 | v1beta1

text \<open>
  Go errors: \<open>fmt.Errorf\<close> with a fixed message, an error handed back by the remote
  API or one of its helpers, and an error wrapped into a message
  (\<open>errwrap.Wrapf\<close>, \<open>fmt.Errorf("...: %s", err)\<close>).
\<close>

datatype error = Errorf string | ApiError string | Wrapf string error

text \<open>An expanded configuration block; its inner structure plays no role here.\<close>

type_synonym config = string

text \<open>
  \<open>container.ClusterUpdate\<close>, restricted to the fields this resource assigns.
  A Go string field is unset when it is empty, a pointer field when it is nil and a slice
  when it has no element.
\<close>

record cluster_update =
  DesiredMasterAuthorizedNetworksConfig :: "config option"
  DesiredMasterVersion :: string
  DesiredNodeVersion :: string
  DesiredAddonsConfig :: "config option"
  DesiredLocations :: "string set"
  DesiredMonitoringService :: string
  DesiredPodSecurityPolicyConfig :: "config option"

definition ClusterUpdate :: cluster_update where
  "ClusterUpdate = \<lparr> DesiredMasterAuthorizedNetworksConfig = None, DesiredMasterVersion = [],
     DesiredNodeVersion = [], DesiredAddonsConfig = None, DesiredLocations = {},
     DesiredMonitoringService = [], DesiredPodSecurityPolicyConfig = None \<rparr>"

text \<open>\<open>containerBeta.Cluster\<close>, restricted to the fields the precondition checks read.\<close>

record cluster =
  Name :: string
  InitialClusterVersion :: string
  Locations :: "string set"
  MasterIpv4CidrBlock :: string
  PrivateCluster :: bool
  IpAllocationPolicy :: "config option"

datatype request =
    CreateClusterRequest cluster
  | UpdateClusterRequest cluster_update
  | SetMaintenancePolicyRequest "config option"
  | SetLegacyAbacRequest bool
  | SetNetworkPolicyRequest config
  | SetLoggingServiceRequest string
  | NodePoolsDelete string
  | ClustersDelete string
  | HttpsHealthChecksInsert string

text \<open>The schema keys \<open>resourceContainerClusterUpdate\<close> inspects with \<open>d.HasChange\<close>.\<close>

datatype field =
    master_authorized_networks_config
  | min_master_version
  | node_version
  | addons_config
  | maintenance_policy
  | additional_zones
  | enable_legacy_abac
  | monitoring_service
  | network_policy
  | node_pool
  | logging_service
  | pod_security_policy_config
  | remove_default_node_pool

text \<open>
  The call sites of remote mutations. Every one of them hands its own description to
  \<open>containerSharedOperationWait\<close>; \<open>description\<close> gives that string. The node
  pools are updated by \<open>nodePoolUpdate\<close> and the default node pool is removed at a call
  site of its own, so no request is sent under these two keys.
\<close>

datatype step =
    creating
  | updating field
  | removing_default_node_pool
  | deleting
  | creating_https_health_check

fun description :: "step \<Rightarrow> string" where
  "description creating = ''creating GKE cluster''"
| "description (updating master_authorized_networks_config) =
     ''updating GKE cluster master authorized networks''"
| "description (updating min_master_version) = ''updating GKE master version''"
| "description (updating node_version) = ''updating GKE node version''"
| "description (updating addons_config) = ''updating GKE cluster addons''"
| "description (updating maintenance_policy) = ''updating GKE cluster maintenance policy''"
| "description (updating additional_zones) = ''updating GKE cluster locations''"
| "description (updating enable_legacy_abac) = ''updating GKE legacy ABAC''"
| "description (updating monitoring_service) = ''updating GKE cluster monitoring service''"
| "description (updating network_policy) = ''updating GKE cluster network policy''"
| "description (updating logging_service) = ''updating GKE logging service''"
| "description (updating pod_security_policy_config) =
     ''updating GKE cluster pod security policy config''"
| "description (updating node_pool) = []"
| "description (updating remove_default_node_pool) = []"
| "description removing_default_node_pool = ''removing default node pool''"
| "description deleting = ''deleting GKE cluster''"
| "description creating_https_health_check = ''Creating HttpsHealthCheck''"

text \<open>What the final fetch of the cluster ends in.\<close>

datatype read_outcome = ReadDone | ReadGone | ReadFailed error

text \<open>
  Everything a call does besides returning is recorded, in order, in a trace: taking and
  releasing a key of \<open>mutexKV\<close>, a remote request with the call site that issued it and
  what \<open>Do()\<close> returned, the wait for the returned operation, the call of
  \<open>nodePoolUpdate\<close> for one node pool, the final fetch, and the writes to the
  \<open>ResourceData\<close> (\<open>SetId\<close>, \<open>Partial\<close>, \<open>SetPartial\<close>).
\<close>

datatype event =
    Lock string
  | Unlock string
  | Call step request "error option"
  | Wait step "error option"
  | NodePoolUpdate nat "error option"
  | Get read_outcome
  | SetId string
  | Partial bool
  | SetPartial field

type_synonym trace = "event list"

type_synonym action = "trace \<Rightarrow> error option \<times> trace"

section \<open>The surroundings of the resource code\<close>

text \<open>
  The remote API and the helpers that live outside the two source files are parameters.
  A remote answer may depend on everything that happened before it, so each remote
  operation reads the trace so far.
  \<^item> \<open>isZone\<close>, \<open>Convert\<close>: helpers of the provider;
  \<^item> \<open>NewVersion\<close>, \<open>LessThan\<close>: the version library;
  \<^item> \<open>Do\<close>: sending a request; \<open>None\<close> means an operation handle came back;
  \<^item> \<open>containerSharedOperationWait\<close>: waiting for that operation;
  \<^item> \<open>nodePoolUpdate\<close>: the update of the node pool with the given index;
  \<^item> \<open>clusterGet\<close>: the fetch inside \<open>resourceContainerClusterRead\<close>.
\<close>

record 'v env =
  isZone :: "string \<Rightarrow> bool"
  NewVersion :: "string \<Rightarrow> error + 'v"
  LessThan :: "'v \<Rightarrow> 'v \<Rightarrow> bool"
  Convert :: "config \<Rightarrow> error + config"
  ConvertRequest :: "api_version \<Rightarrow> request \<Rightarrow> error option"
  Do :: "trace \<Rightarrow> request \<Rightarrow> error option"
  containerSharedOperationWait :: "trace \<Rightarrow> step \<Rightarrow> error option"
  nodePoolUpdate :: "trace \<Rightarrow> nat \<Rightarrow> error option"
  clusterGet :: "trace \<Rightarrow> read_outcome"

text \<open>
  The \<open>schema.ResourceData\<close> and provider configuration as the three operations read
  them. \<open>d.GetOk\<close> reports a value as present when it differs from the zero value of
  its type, so a string is present when non-empty, a boolean when true, a set or list
  when it has an element.
\<close>

record resource_data =
  getProject :: "error + string"
  getLocation :: "error + string"
  getZone :: "error + string"
  d_region :: string
  d_name :: string
  containerAPIVersion :: api_version
  HasChange :: "field \<Rightarrow> bool"
  d_master_authorized_networks_config :: config
  d_min_master_version :: string
  d_master_version :: string
  d_node_version :: string
  d_addons_config :: "config option"
  d_maintenance_policy :: "config option"
  d_additional_zones_old :: "string set"
  d_additional_zones :: "string set"
  d_enable_legacy_abac :: bool
  d_monitoring_service :: string
  d_network_policy :: config
  d_node_pool_count :: nat
  expandNodePool :: "nat \<Rightarrow> error option"
  d_logging_service :: string
  d_pod_security_policy_config :: config
  d_remove_default_node_pool :: bool
  d_network :: "error option"
  d_ip_allocation_policy :: "config option list"
  d_master_ipv4_cidr_block :: string
  d_private_cluster :: bool

section \<open>Sequencing, locking and remote calls\<close>

text \<open>Statements in sequence: the first error returns.\<close>

fun seq :: "action list \<Rightarrow> action" where
  "seq [] s = (None, s)"
| "seq (p # ps) s = (case p s of (Some e, s') \<Rightarrow> (Some e, s') | (None, s') \<Rightarrow> seq ps s')"

definition emit :: "event \<Rightarrow> action" where
  "emit x s = (None, s @ [x])"

definition containerClusterMutexKey :: "string \<Rightarrow> string \<Rightarrow> string \<Rightarrow> string" where
  "containerClusterMutexKey project location clusterName =
     ''google-container-cluster/'' @ project @ ''/'' @ location @ ''/'' @ clusterName"

text \<open>
  \<open>mutexKV.Lock(key)\<close> followed by \<open>defer mutexKV.Unlock(key)\<close>: the key is released
  when the rest of the function returns, whatever it returns.
\<close>

definition lockDeferUnlock :: "string \<Rightarrow> action \<Rightarrow> action" where
  "lockDeferUnlock key body s = (case body (s @ [Lock key]) of (r, s') \<Rightarrow> (r, s' @ [Unlock key]))"

text \<open>
  Modelled from the spec: \<open>lockedCall\<close> is declared outside the given sources. It is
  the scoped acquisition of section 4.1: the key is acquired, the function is called, and
  the key is released on every exit path.
\<close>

definition lockedCall :: "string \<Rightarrow> action \<Rightarrow> action" where
  "lockedCall lockKey f = lockDeferUnlock lockKey f"

definition call :: "'v env \<Rightarrow> step \<Rightarrow> request \<Rightarrow> action" where
  "call E t req s = (let r = Do E s req in (r, s @ [Call t req r]))"

definition wait :: "'v env \<Rightarrow> step \<Rightarrow> action" where
  "wait E t s = (let r = containerSharedOperationWait E s t in (r, s @ [Wait t r]))"

text \<open>
  The closure every update step runs under the lock: with the \<open>v1beta1\<close> client the
  request is converted first; then the request is sent and its operation awaited. The
  closures written inline for the maintenance policy, legacy ABAC, network policy and
  logging service have this same body.
\<close>

definition updateFunc :: "'v env \<Rightarrow> api_version \<Rightarrow> step \<Rightarrow> request \<Rightarrow> action" where
  "updateFunc E api t req s =
     (case api of
        v1 \<Rightarrow> seq [call E t req, wait E t] s
      | v1beta1 \<Rightarrow>
          (case ConvertRequest E v1beta1 req of
             Some e \<Rightarrow> (Some e, s)
           | None \<Rightarrow> seq [call E t req, wait E t] s))"

section \<open>Reading the cluster\<close>

text \<open>
  \<open>resourceContainerClusterRead\<close>: one fetch, retried inside the helper library. Its
  outcome stands for every way the function can end, what \<open>handleNotFoundError\<close> makes
  of a failed fetch included: an error, or no error with the id cleared because the cluster
  is gone. The fields written from the answer are left out.
\<close>

definition resourceContainerClusterRead :: "'v env \<Rightarrow> resource_data \<Rightarrow> action" where
  "resourceContainerClusterRead E d s =
     (case getProject d of Inl e \<Rightarrow> (Some e, s) | Inr project \<Rightarrow>
     (case getLocation d of Inl e \<Rightarrow> (Some e, s) | Inr location \<Rightarrow>
     (case clusterGet E s of
        ReadDone \<Rightarrow> (None, s @ [Get ReadDone])
      | ReadGone \<Rightarrow> (None, s @ [Get ReadGone, SetId []])
      | ReadFailed e \<Rightarrow> (Some e, s @ [Get (ReadFailed e)]))))"

section \<open>Create\<close>

text \<open>\<open>strings.Split(s, "-")[0]\<close>: the part before the first dash.\<close>

definition beforeDash :: "string \<Rightarrow> string" where
  "beforeDash s = takeWhile (\<lambda>c. c \<noteq> CHR ''-'') s"

definition expandIPAllocationPolicy :: "config option list \<Rightarrow> error + config" where
  "expandIPAllocationPolicy l =
     (case l of
        [] \<Rightarrow> Inr []
      | Some c # _ \<Rightarrow> Inr c
      | None # _ \<Rightarrow> Inl (Errorf ''clusters using IP aliases must specify secondary ranges''))"

text \<open>The messages of the precondition checks.\<close>

definition nodeVersionMismatch :: error where
  "nodeVersionMismatch =
     Errorf ''node_version and min_master_version must be set to equivalent values on create''"

definition originalZoneListed :: error where
  "originalZoneListed =
     Errorf (''additional_zones should not contain the original \039zone'' @ [CHR 0x27])"

definition cidrBlockMissing :: error where
  "cidrBlockMissing = Errorf ''master_ipv4_cidr_block is mandatory when private_cluster=true''"

definition ipAllocationPolicyMissing :: error where
  "ipAllocationPolicyMissing =
     Errorf ''ip_allocation_policy is mandatory when private_cluster=true''"

text \<open>The loop over the node pools of the configuration: the first error returns.\<close>

fun firstError :: "(nat \<Rightarrow> error option) \<Rightarrow> nat list \<Rightarrow> error option" where
  "firstError f [] = None"
| "firstError f (i # is) = (case f i of Some e \<Rightarrow> Some e | None \<Rightarrow> firstError f is)"

text \<open>
  The part of \<open>resourceContainerClusterCreate\<close> that builds the cluster value: every
  early return of lines 473 to 618, in the order of the source.
\<close>

definition buildCluster :: "'v env \<Rightarrow> resource_data \<Rightarrow> string \<Rightarrow> error + cluster" where
  "buildCluster E d location =
     (let initialClusterVersion = d_min_master_version d in
      if d_node_version d \<noteq> [] \<and> beforeDash initialClusterVersion \<noteq> beforeDash (d_node_version d)
      then Inl nodeVersionMismatch
      else if d_additional_zones d \<noteq> {} \<and> location \<in> d_additional_zones d
      then Inl originalZoneListed
      else
       (case d_network d of Some e \<Rightarrow> Inl e | None \<Rightarrow>
        (case firstError (expandNodePool d) [0..<d_node_pool_count d] of
           Some e \<Rightarrow> Inl e
         | None \<Rightarrow>
        (case (if d_ip_allocation_policy d \<noteq> []
               then (case expandIPAllocationPolicy (d_ip_allocation_policy d) of
                       Inl e \<Rightarrow> Inl e
                     | Inr ap \<Rightarrow> Inr (Some ap))
               else Inr None) of
           Inl e \<Rightarrow> Inl e
         | Inr ipAllocationPolicy \<Rightarrow>
            if d_private_cluster d \<and> d_master_ipv4_cidr_block d = []
            then Inl cidrBlockMissing
            else if d_private_cluster d \<and> ipAllocationPolicy = None
            then Inl ipAllocationPolicyMissing
            else Inr \<lparr> Name = d_name d,
                       InitialClusterVersion = initialClusterVersion,
                       Locations = (if d_additional_zones d \<noteq> {} \<and> isZone E location
                                    then insert location (d_additional_zones d)
                                    else d_additional_zones d),
                       MasterIpv4CidrBlock = d_master_ipv4_cidr_block d,
                       PrivateCluster = d_private_cluster d,
                       IpAllocationPolicy = ipAllocationPolicy \<rparr>))))"

text \<open>The removal of the default node pool: the request, then the wait, both errors wrapped.\<close>

definition removeDefaultNodePool :: "'v env \<Rightarrow> action" where
  "removeDefaultNodePool E s =
     (case call E removing_default_node_pool (NodePoolsDelete ''default-pool'') s of
        (Some e, s') \<Rightarrow> (Some (Wrapf ''Error deleting default node pool: {{err}}'' e), s')
      | (None, s') \<Rightarrow>
          (case wait E removing_default_node_pool s' of
             (Some e, s'') \<Rightarrow> (Some (Wrapf ''Error deleting default node pool: {{err}}'' e), s'')
           | (None, s'') \<Rightarrow> (None, s'')))"

text \<open>What \<open>resourceContainerClusterCreate\<close> does after taking the lock (lines 627 to 681).\<close>

definition createLocked :: "'v env \<Rightarrow> resource_data \<Rightarrow> cluster \<Rightarrow> action" where
  "createLocked E d c s =
     (case ConvertRequest E (containerAPIVersion d) (CreateClusterRequest c) of
        Some e \<Rightarrow> (Some e, s)
      | None \<Rightarrow>
     (case call E creating (CreateClusterRequest c) s of
        (Some e, s1) \<Rightarrow> (Some e, s1)
      | (None, s1) \<Rightarrow>
     (case wait E creating (s1 @ [SetId (d_name d)]) of
        (Some waitErr, s2) \<Rightarrow> (Some waitErr, s2 @ [SetId []])
      | (None, s2) \<Rightarrow>
          seq [if d_remove_default_node_pool d then removeDefaultNodePool E else Pair None,
               resourceContainerClusterRead E d] s2)))"

definition resourceContainerClusterCreate :: "'v env \<Rightarrow> resource_data \<Rightarrow> action" where
  "resourceContainerClusterCreate E d s =
     (case getProject d of Inl e \<Rightarrow> (Some e, s) | Inr project \<Rightarrow>
     (case getLocation d of Inl e \<Rightarrow> (Some e, s) | Inr location \<Rightarrow>
     (case buildCluster E d location of
        Inl e \<Rightarrow> (Some e, s)
      | Inr c \<Rightarrow>
          lockDeferUnlock (containerClusterMutexKey project location (d_name d))
            (createLocked E d c) s)))"

text \<open>The id the \<open>ResourceData\<close> holds after a trace, given the id it held before.\<close>

definition finalId :: "string \<Rightarrow> trace \<Rightarrow> string" where
  "finalId i0 tr = foldl (\<lambda>i x. case x of SetId j \<Rightarrow> j | _ \<Rightarrow> i) i0 tr"

section \<open>Create of the HTTPS health check\<close>

text \<open>
  What \<open>resourceComputeHttpsHealthCheckCreate\<close> reads and what its surroundings answer:
  the project, the two expansions of \<open>replaceVars\<close> (the URL of the collection and the id
  \<open>{{name}}\<close>), the answer to the \<open>Post\<close>, the conversion of that answer to an
  operation, the wait for the operation, and, for the read that ends a successful create,
  the expansion of the URL of the resource and the fetch.
\<close>

record https_health_check =
  hc_getProject :: "error + string"
  hc_collection_url :: "error + string"
  hc_id :: "error + string"
  hc_Post :: "error option"
  hc_Convert :: "error option"
  computeOperationWaitTime :: "error option"
  hc_url :: "error + string"
  hc_Get :: read_outcome

definition resourceComputeHttpsHealthCheckRead :: "https_health_check \<Rightarrow> action" where
  "resourceComputeHttpsHealthCheckRead h s =
     (case hc_getProject h of Inl e \<Rightarrow> (Some e, s) | Inr project \<Rightarrow>
     (case hc_url h of Inl e \<Rightarrow> (Some e, s) | Inr url \<Rightarrow>
     (case hc_Get h of
        ReadDone \<Rightarrow> (None, s @ [Get ReadDone])
      | ReadGone \<Rightarrow> (None, s @ [Get ReadGone, SetId []])
      | ReadFailed e \<Rightarrow> (Some e, s @ [Get (ReadFailed e)]))))"

definition resourceComputeHttpsHealthCheckCreate :: "https_health_check \<Rightarrow> action" where
  "resourceComputeHttpsHealthCheckCreate h s =
     (case hc_getProject h of Inl e \<Rightarrow> (Some e, s) | Inr project \<Rightarrow>
     (case hc_collection_url h of Inl e \<Rightarrow> (Some e, s) | Inr url \<Rightarrow>
     (case hc_Post h of
        Some e \<Rightarrow>
          (Some (Wrapf ''Error creating HttpsHealthCheck: %s'' e),
           s @ [Call creating_https_health_check (HttpsHealthChecksInsert url) (Some e)])
      | None \<Rightarrow>
     (let s1 = s @ [Call creating_https_health_check (HttpsHealthChecksInsert url) None] in
      case hc_id h of
        Inl e \<Rightarrow> (Some (Wrapf ''Error constructing id: %s'' e), s1)
      | Inr i \<Rightarrow>
     (let s2 = s1 @ [SetId i] in
      case hc_Convert h of
        Some e \<Rightarrow> (Some e, s2)
      | None \<Rightarrow>
     (case computeOperationWaitTime h of
        Some waitErr \<Rightarrow>
          (Some waitErr, s2 @ [Wait creating_https_health_check (Some waitErr), SetId []])
      | None \<Rightarrow>
          resourceComputeHttpsHealthCheckRead h
            (s2 @ [Wait creating_https_health_check None])))))))"

section \<open>Delete\<close>






section \<open>Update\<close>

text \<open>
  \<open>resourceContainerClusterUpdate\<close> is a sequence of blocks, one per schema key, each
  guarded by \<open>d.HasChange\<close>. Each block below is one of them, in the order of the source.
\<close>

definition update_master_authorized_networks_config :: "'v env \<Rightarrow> resource_data \<Rightarrow> string \<Rightarrow> action" where
  "update_master_authorized_networks_config E d lockKey s =
     (if HasChange d master_authorized_networks_config then
        (case Convert E (d_master_authorized_networks_config d) of
           Inl e \<Rightarrow> (Some e, s)
         | Inr conf \<Rightarrow>
             seq [lockedCall lockKey
                    (updateFunc E (containerAPIVersion d) (updating master_authorized_networks_config)
                       (UpdateClusterRequest
                          (ClusterUpdate\<lparr>DesiredMasterAuthorizedNetworksConfig := Some conf\<rparr>))),
                  emit (SetPartial master_authorized_networks_config)] s)
      else (None, s))"

text \<open>The master must be updated before the nodes.\<close>

definition update_min_master_version :: "'v env \<Rightarrow> resource_data \<Rightarrow> string \<Rightarrow> action" where
  "update_min_master_version E d lockKey s =
     (if HasChange d min_master_version then
        (let desiredMasterVersion = d_min_master_version d;
             currentMasterVersion = d_master_version d in
         case NewVersion E desiredMasterVersion of
           Inl e \<Rightarrow> (Some e, s)
         | Inr des \<Rightarrow>
        (case NewVersion E currentMasterVersion of
           Inl e \<Rightarrow> (Some e, s)
         | Inr cur \<Rightarrow>
             seq [if LessThan E cur des
                  then lockedCall lockKey
                         (updateFunc E (containerAPIVersion d) (updating min_master_version)
                            (UpdateClusterRequest
                               (ClusterUpdate\<lparr>DesiredMasterVersion := desiredMasterVersion\<rparr>)))
                  else Pair None,
                  emit (SetPartial min_master_version)] s))
      else (None, s))"

definition update_node_version :: "'v env \<Rightarrow> resource_data \<Rightarrow> string \<Rightarrow> action" where
  "update_node_version E d lockKey s =
     (if HasChange d node_version then
        seq [lockedCall lockKey
               (updateFunc E (containerAPIVersion d) (updating node_version)
                  (UpdateClusterRequest (ClusterUpdate\<lparr>DesiredNodeVersion := d_node_version d\<rparr>))),
             emit (SetPartial node_version)] s
      else (None, s))"

definition update_addons_config :: "'v env \<Rightarrow> resource_data \<Rightarrow> string \<Rightarrow> action" where
  "update_addons_config E d lockKey s =
     (if HasChange d addons_config then
        (case d_addons_config d of
           None \<Rightarrow> (None, s)
         | Some ac \<Rightarrow>
        (case Convert E ac of
           Inl e \<Rightarrow> (Some e, s)
         | Inr conf \<Rightarrow>
             seq [lockedCall lockKey
                    (updateFunc E (containerAPIVersion d) (updating addons_config)
                       (UpdateClusterRequest (ClusterUpdate\<lparr>DesiredAddonsConfig := Some conf\<rparr>))),
                  emit (SetPartial addons_config)] s))
      else (None, s))"

definition update_maintenance_policy :: "'v env \<Rightarrow> resource_data \<Rightarrow> string \<Rightarrow> action" where
  "update_maintenance_policy E d lockKey s =
     (if HasChange d maintenance_policy then
        (case (case d_maintenance_policy d of
                 Some mp \<Rightarrow>
                   (case Convert E mp of
                      Inl e \<Rightarrow> Inl e
                    | Inr pol \<Rightarrow> Inr (SetMaintenancePolicyRequest (Some pol)))
               | None \<Rightarrow> Inr (SetMaintenancePolicyRequest None)) of
           Inl e \<Rightarrow> (Some e, s)
         | Inr req \<Rightarrow>
             seq [lockedCall lockKey
                    (updateFunc E (containerAPIVersion d) (updating maintenance_policy) req),
                  emit (SetPartial maintenance_policy)] s)
      else (None, s))"

text \<open>
  Since zones cannot be added and removed in the same request, first all the zones are
  added, then the ones no longer used are removed.
\<close>

definition update_additional_zones :: "'v env \<Rightarrow> resource_data \<Rightarrow> string \<Rightarrow> string \<Rightarrow> action" where
  "update_additional_zones E d location lockKey s =
     (if HasChange d additional_zones then
        (let azSetOld = d_additional_zones_old d;
             azSetNew = d_additional_zones d in
         if location \<in> azSetNew
         then (Some originalZoneListed, s)
         else
          (let azSet = (if isZone E location then insert location (azSetOld \<union> azSetNew)
                        else azSetOld \<union> azSetNew) in
           case lockedCall lockKey
                  (updateFunc E (containerAPIVersion d) (updating additional_zones)
                     (UpdateClusterRequest (ClusterUpdate\<lparr>DesiredLocations := azSet\<rparr>))) s of
             (Some e, s1) \<Rightarrow> (Some e, s1)
           | (None, s1) \<Rightarrow>
              (let azSetNew' = (if isZone E location then insert location azSetNew else azSetNew) in
               seq [if azSet \<noteq> azSetNew'
                    then lockedCall lockKey
                           (updateFunc E (containerAPIVersion d) (updating additional_zones)
                              (UpdateClusterRequest (ClusterUpdate\<lparr>DesiredLocations := azSetNew'\<rparr>)))
                    else Pair None,
                    emit (SetPartial additional_zones)] s1)))
      else (None, s))"

definition update_enable_legacy_abac :: "'v env \<Rightarrow> resource_data \<Rightarrow> string \<Rightarrow> action" where
  "update_enable_legacy_abac E d lockKey s =
     (if HasChange d enable_legacy_abac then
        seq [lockedCall lockKey
               (updateFunc E (containerAPIVersion d) (updating enable_legacy_abac)
                  (SetLegacyAbacRequest (d_enable_legacy_abac d))),
             emit (SetPartial enable_legacy_abac)] s
      else (None, s))"

definition update_monitoring_service :: "'v env \<Rightarrow> resource_data \<Rightarrow> string \<Rightarrow> action" where
  "update_monitoring_service E d lockKey s =
     (if HasChange d monitoring_service then
        seq [lockedCall lockKey
               (updateFunc E (containerAPIVersion d) (updating monitoring_service)
                  (UpdateClusterRequest
                     (ClusterUpdate\<lparr>DesiredMonitoringService := d_monitoring_service d\<rparr>))),
             emit (SetPartial monitoring_service)] s
      else (None, s))"

definition update_network_policy :: "'v env \<Rightarrow> resource_data \<Rightarrow> string \<Rightarrow> action" where
  "update_network_policy E d lockKey s =
     (if HasChange d network_policy then
        (case Convert E (d_network_policy d) of
           Inl e \<Rightarrow> (Some e, s)
         | Inr pol \<Rightarrow>
             seq [lockedCall lockKey
                    (updateFunc E (containerAPIVersion d) (updating network_policy)
                       (SetNetworkPolicyRequest pol)),
                  emit (SetPartial network_policy)] s)
      else (None, s))"

text \<open>
  One round of the loop over the node pools: \<open>extractNodePoolInformationFromCluster\<close>
  resolves project and location again, then \<open>nodePoolUpdate\<close> runs for the pool.
\<close>

definition nodePoolRound :: "'v env \<Rightarrow> resource_data \<Rightarrow> nat \<Rightarrow> action" where
  "nodePoolRound E d i s =
     (case getProject d of Inl e \<Rightarrow> (Some e, s) | Inr project \<Rightarrow>
     (case getLocation d of Inl e \<Rightarrow> (Some e, s) | Inr location \<Rightarrow>
     (let r = nodePoolUpdate E s i in (r, s @ [NodePoolUpdate i r]))))"

definition update_node_pool :: "'v env \<Rightarrow> resource_data \<Rightarrow> action" where
  "update_node_pool E d s =
     (if d_node_pool_count d \<noteq> 0 then
        seq (map (nodePoolRound E d) [0..<d_node_pool_count d] @ [emit (SetPartial node_pool)]) s
      else (None, s))"

definition update_logging_service :: "'v env \<Rightarrow> resource_data \<Rightarrow> string \<Rightarrow> action" where
  "update_logging_service E d lockKey s =
     (if HasChange d logging_service then
        seq [lockedCall lockKey
               (updateFunc E (containerAPIVersion d) (updating logging_service)
                  (SetLoggingServiceRequest (d_logging_service d))),
             emit (SetPartial logging_service)] s
      else (None, s))"

text \<open>This closure always uses the \<open>v1beta1\<close> client and converts nothing.\<close>

definition update_pod_security_policy_config :: "'v env \<Rightarrow> resource_data \<Rightarrow> string \<Rightarrow> action" where
  "update_pod_security_policy_config E d lockKey s =
     (if HasChange d pod_security_policy_config then
        seq [lockedCall lockKey
               (seq [call E (updating pod_security_policy_config)
                       (UpdateClusterRequest
                          (ClusterUpdate\<lparr>DesiredPodSecurityPolicyConfig :=
                             Some (d_pod_security_policy_config d)\<rparr>)),
                     wait E (updating pod_security_policy_config)]),
             emit (SetPartial pod_security_policy_config)] s
      else (None, s))"

definition update_remove_default_node_pool :: "'v env \<Rightarrow> resource_data \<Rightarrow> action" where
  "update_remove_default_node_pool E d s =
     (if HasChange d remove_default_node_pool \<and> d_remove_default_node_pool d
      then removeDefaultNodePool E s
      else (None, s))"

definition updateSteps :: "'v env \<Rightarrow> resource_data \<Rightarrow> string \<Rightarrow> string \<Rightarrow> action list" where
  "updateSteps E d location lockKey =
     [update_master_authorized_networks_config E d lockKey,
      update_min_master_version E d lockKey,
      update_node_version E d lockKey,
      update_addons_config E d lockKey,
      update_maintenance_policy E d lockKey,
      update_additional_zones E d location lockKey,
      update_enable_legacy_abac E d lockKey,
      update_monitoring_service E d lockKey,
      update_network_policy E d lockKey,
      update_node_pool E d,
      update_logging_service E d lockKey,
      update_pod_security_policy_config E d lockKey,
      update_remove_default_node_pool E d]"

definition resourceContainerClusterUpdate :: "'v env \<Rightarrow> resource_data \<Rightarrow> action" where
  "resourceContainerClusterUpdate E d s =
     (case getProject d of Inl e \<Rightarrow> (Some e, s) | Inr project \<Rightarrow>
     (case getLocation d of Inl e \<Rightarrow> (Some e, s) | Inr location \<Rightarrow>
        seq [emit (Partial True),
             seq (updateSteps E d location (containerClusterMutexKey project location (d_name d))),
             emit (Partial False),
             resourceContainerClusterRead E d] s))"

section \<open>Reading a trace\<close>

fun isLockEvent :: "event \<Rightarrow> bool" where
  "isLockEvent (Lock k) = True"
| "isLockEvent (Unlock k) = True"
| "isLockEvent x = False"

definition lockEvents :: "trace \<Rightarrow> trace" where
  "lockEvents tr = filter isLockEvent tr"

text \<open>
  The lock is held throughout a trace: the trace starts by taking the key, ends by
  releasing it, and takes or releases nothing in between. A call that returns before
  it reaches the lock leaves the empty trace.
\<close>

definition heldThroughout :: "string \<Rightarrow> trace \<Rightarrow> bool" where
  "heldThroughout k tr \<longleftrightarrow>
     tr = [] \<or> (hd tr = Lock k \<and> last tr = Unlock k \<and> lockEvents tr = [Lock k, Unlock k])"

text \<open>The schema key an event of an update belongs to.\<close>

fun eventField :: "event \<Rightarrow> field option" where
  "eventField (Call (updating f) req r) = Some f"
| "eventField (Call removing_default_node_pool req r) = Some remove_default_node_pool"
| "eventField (Wait (updating f) r) = Some f"
| "eventField (Wait removing_default_node_pool r) = Some remove_default_node_pool"
| "eventField (NodePoolUpdate i r) = Some node_pool"
| "eventField (SetPartial f) = Some f"
| "eventField x = None"

definition fieldEvents :: "field \<Rightarrow> trace \<Rightarrow> trace" where
  "fieldEvents f tr = filter (\<lambda>x. eventField x = Some f) tr"

text \<open>
  The steps issued, in order: the remote requests and the calls of \<open>nodePoolUpdate\<close>,
  each named by its schema key.
\<close>

fun sentStep :: "event \<Rightarrow> field option" where
  "sentStep (Call t req r) = eventField (Call t req r)"
| "sentStep (NodePoolUpdate i r) = Some node_pool"
| "sentStep x = None"

definition sentSteps :: "trace \<Rightarrow> field list" where
  "sentSteps tr = List.map_filter sentStep tr"

text \<open>The remote requests alone.\<close>

fun requestField :: "event \<Rightarrow> field option" where
  "requestField (Call t req r) = eventField (Call t req r)"
| "requestField x = None"

definition requestFields :: "trace \<Rightarrow> field list" where
  "requestFields tr = List.map_filter requestField tr"

text \<open>The requests sent for one schema key, each with what \<open>Do()\<close> returned.\<close>

fun requestOf :: "field \<Rightarrow> event \<Rightarrow> (request \<times> error option) option" where
  "requestOf f (Call (updating g) req r) = (if g = f then Some (req, r) else None)"
| "requestOf f x = None"

definition requestsOf :: "field \<Rightarrow> trace \<Rightarrow> (request \<times> error option) list" where
  "requestsOf f tr = List.map_filter (requestOf f) tr"

text \<open>A step failed: its request was rejected, or the wait for its operation failed.\<close>

fun failed :: "event \<Rightarrow> bool" where
  "failed (Call t req (Some e)) = True"
| "failed (Wait t (Some e)) = True"
| "failed (NodePoolUpdate i (Some e)) = True"
| "failed x = False"

definition firstFailure :: "trace \<Rightarrow> event option" where
  "firstFailure tr = List.find failed tr"

definition afterFailure :: "trace \<Rightarrow> trace" where
  "afterFailure tr = tl (dropWhile (\<lambda>x. \<not> failed x) tr)"

text \<open>The position of each schema key in the order of the blocks of the update.\<close>

definition precedence :: "field list" where
  "precedence = [master_authorized_networks_config, min_master_version, node_version,
     addons_config, maintenance_policy, additional_zones, enable_legacy_abac,
     monitoring_service, network_policy, node_pool, logging_service,
     pod_security_policy_config, remove_default_node_pool]"

fun rank :: "field \<Rightarrow> nat" where
  "rank master_authorized_networks_config = 0"
| "rank min_master_version = 1"
| "rank node_version = 2"
| "rank addons_config = 3"
| "rank maintenance_policy = 4"
| "rank additional_zones = 5"
| "rank enable_legacy_abac = 6"
| "rank monitoring_service = 7"
| "rank network_policy = 8"
| "rank node_pool = 9"
| "rank logging_service = 10"
| "rank pod_security_policy_config = 11"
| "rank remove_default_node_pool = 12"

text \<open>
  A \<open>ClusterUpdate\<close> sent for a schema key carries that key's \<open>Desired\<close> field and no
  other: with that one field cleared nothing is left.
\<close>

fun clearField :: "field \<Rightarrow> cluster_update \<Rightarrow> cluster_update" where
  "clearField master_authorized_networks_config u = u\<lparr>DesiredMasterAuthorizedNetworksConfig := None\<rparr>"
| "clearField min_master_version u = u\<lparr>DesiredMasterVersion := []\<rparr>"
| "clearField node_version u = u\<lparr>DesiredNodeVersion := []\<rparr>"
| "clearField addons_config u = u\<lparr>DesiredAddonsConfig := None\<rparr>"
| "clearField additional_zones u = u\<lparr>DesiredLocations := {}\<rparr>"
| "clearField monitoring_service u = u\<lparr>DesiredMonitoringService := []\<rparr>"
| "clearField pod_security_policy_config u = u\<lparr>DesiredPodSecurityPolicyConfig := None\<rparr>"
| "clearField f u = u"

fun singleGroup :: "event \<Rightarrow> bool" where
  "singleGroup (Call (updating f) (UpdateClusterRequest u) r) = (clearField f u = ClusterUpdate)"
| "singleGroup x = True"

text \<open>
  The locking discipline of one update step at a time, as an automaton over the trace. While
  the key is free it may be taken, and no update request may be sent; while it is held it may
  not be taken again, one request at most is sent, and the key of the cluster is the one
  released. \<open>Broken\<close> is the state after a violation.
\<close>

datatype lock_state = Free | Held nat | Broken

fun lockStep :: "string \<Rightarrow> lock_state \<Rightarrow> event \<Rightarrow> lock_state" where
  "lockStep k Free (Lock k') = (if k' = k then Held 0 else Broken)"
| "lockStep k Free (Unlock k') = Broken"
| "lockStep k Free (Call (updating f) req r) = Broken"
| "lockStep k Free x = Free"
| "lockStep k (Held n) (Lock k') = Broken"
| "lockStep k (Held n) (Unlock k') = (if k' = k then Free else Broken)"
| "lockStep k (Held n) (Call t req r) = (if n = 0 then Held 1 else Broken)"
| "lockStep k (Held n) x = Held n"
| "lockStep k Broken x = Broken"

definition lockRun :: "string \<Rightarrow> trace \<Rightarrow> lock_state" where
  "lockRun k tr = foldl (lockStep k) Free tr"

text \<open>What the block of one schema key may add to the trace.\<close>

definition emitsFor :: "resource_data \<Rightarrow> field \<Rightarrow> trace \<Rightarrow> bool" where
  "emitsFor d f evs \<longleftrightarrow>
     (\<forall>x\<in>set evs. eventField x = None \<or> eventField x = Some f)
   \<and> (\<forall>x\<in>set evs. failed x \<longrightarrow> eventField x = Some f)
   \<and> length (requestFields evs) \<le> (if f = additional_zones then 2 else 1)
   \<and> (requestFields evs \<noteq> [] \<longrightarrow> HasChange d f)
   \<and> (\<forall>x\<in>set evs. singleGroup x)"

definition blockOutcome :: "string \<Rightarrow> resource_data \<Rightarrow> field \<Rightarrow> trace \<Rightarrow> error option \<Rightarrow> trace \<Rightarrow> bool" where
  "blockOutcome k d f s r s' \<longleftrightarrow>
     (\<exists>evs. s' = s @ evs \<and> emitsFor d f evs \<and> lockRun k evs = Free
        \<and> (case r of
              None \<Rightarrow> (\<forall>x\<in>set evs. \<not> failed x)
                 \<and> (sentSteps evs \<noteq> [] \<longrightarrow> f = remove_default_node_pool \<or> SetPartial f \<in> set evs)
            | Some e \<Rightarrow> SetPartial f \<notin> set evs
                 \<and> (\<forall>y\<in>set (afterFailure evs). isLockEvent y)))"

text \<open>What holds of the events of the first \<open>i\<close> blocks, however they ended.\<close>

definition stepsInv :: "string \<Rightarrow> resource_data \<Rightarrow> nat \<Rightarrow> trace \<Rightarrow> bool" where
  "stepsInv k d i evs \<longleftrightarrow>
     (\<forall>x\<in>set evs. \<forall>f. eventField x = Some f \<longrightarrow> rank f < i)
   \<and> sorted (map rank (sentSteps evs))
   \<and> (\<forall>f. count_list (requestFields evs) f \<le> (if f = additional_zones then 2 else 1))
   \<and> (\<forall>f\<in>set (requestFields evs). HasChange d f)
   \<and> (\<forall>x\<in>set evs. singleGroup x)
   \<and> lockRun k evs = Free"

text \<open>Every step so far went well and is recorded with \<open>SetPartial\<close>.\<close>

definition allApplied :: "trace \<Rightarrow> bool" where
  "allApplied evs \<longleftrightarrow>
     (\<forall>x\<in>set evs. \<not> failed x)
   \<and> (\<forall>g\<in>set (sentSteps evs). g = remove_default_node_pool \<or> SetPartial g \<in> set evs)"

text \<open>
  The update stopped at its first failed step: only the release of the lock follows it, its
  schema key is not recorded, and the key of every other step issued is.
\<close>

definition stoppedAtFailure :: "trace \<Rightarrow> bool" where
  "stoppedAtFailure evs \<longleftrightarrow>
     (\<forall>x. firstFailure evs = Some x \<longrightarrow>
        (\<forall>y\<in>set (afterFailure evs). isLockEvent y)
        \<and> (\<exists>f. eventField x = Some f \<and> SetPartial f \<notin> set evs
              \<and> (\<forall>g\<in>set (sentSteps evs). g \<noteq> f \<longrightarrow> SetPartial g \<in> set evs)))"

text \<open>The events after the blocks: leaving partial mode and the final fetch.\<close>

fun closingEvent :: "event \<Rightarrow> bool" where
  "closingEvent (Partial b) = True"
| "closingEvent (Get out) = True"
| "closingEvent (SetId i) = True"
| "closingEvent x = False"

text \<open>The precondition checks of Create.\<close>

definition validationErrors :: "error set" where
  "validationErrors =
     {nodeVersionMismatch, originalZoneListed, cidrBlockMissing, ipAllocationPolicyMissing}"

definition violatesPreconditions :: "resource_data \<Rightarrow> bool" where
  "violatesPreconditions d \<longleftrightarrow>
     (d_node_version d \<noteq> [] \<and> beforeDash (d_min_master_version d) \<noteq> beforeDash (d_node_version d))
   \<or> (case getLocation d of Inl e \<Rightarrow> False | Inr location \<Rightarrow> location \<in> d_additional_zones d)
   \<or> (d_private_cluster d \<and> (d_master_ipv4_cidr_block d = [] \<or> d_ip_allocation_policy d = []))"

text \<open>
  The two sets of locations the block of \<open>additional_zones\<close> sends: \<open>azSet\<close>, the
  union of the old and the new zones, and \<open>azSetNew\<close> as it stands when the second
  request is built; both hold the zone of the cluster when its location is a zone.
\<close>

definition azSet :: "'v env \<Rightarrow> resource_data \<Rightarrow> string \<Rightarrow> string set" where
  "azSet E d location =
     (if isZone E location
      then insert location (d_additional_zones_old d \<union> d_additional_zones d)
      else d_additional_zones_old d \<union> d_additional_zones d)"

definition azSetNew :: "'v env \<Rightarrow> resource_data \<Rightarrow> string \<Rightarrow> string set" where
  "azSetNew E d location =
     (if isZone E location then insert location (d_additional_zones d) else d_additional_zones d)"

definition locationsRequest :: "string set \<Rightarrow> request" where
  "locationsRequest zones = UpdateClusterRequest (ClusterUpdate\<lparr>DesiredLocations := zones\<rparr>)"

text \<open>The request of the master upgrade.\<close>

definition masterVersionRequest :: "resource_data \<Rightarrow> request" where
  "masterVersionRequest d =
     UpdateClusterRequest (ClusterUpdate\<lparr>DesiredMasterVersion := d_min_master_version d\<rparr>)"

text \<open>
  The block of \<open>min_master_version\<close> is reached: the one block before it returned no
  error.
\<close>

definition reachesMasterVersion :: "'v env \<Rightarrow> resource_data \<Rightarrow> string \<Rightarrow> bool" where
  "reachesMasterVersion E d lockKey \<longleftrightarrow>
     fst (update_master_authorized_networks_config E d lockKey [Partial True]) = None"

section \<open>Scenarios\<close>

text \<open>
  Surroundings in which every conversion, request, wait and fetch succeeds, with versions
  read as numbers, and a zonal cluster none of whose fields changed. The concrete runs
  below vary these two.
\<close>

definition quietEnv :: "nat env" where
  "quietEnv = \<lparr> isZone = (\<lambda>l. length (filter (\<lambda>c. c = CHR ''-'') l) = 2),
     NewVersion = (\<lambda>v. if v = ''1.1'' then Inr 11 else if v = ''1.2'' then Inr 12
                        else Inl (ApiError ''Malformed version'')),
     LessThan = (\<lambda>a b. a < b),
     Convert = Inr,
     ConvertRequest = (\<lambda>api req. None),
     Do = (\<lambda>s req. None),
     containerSharedOperationWait = (\<lambda>s t. None),
     nodePoolUpdate = (\<lambda>s i. None),
     clusterGet = (\<lambda>s. ReadDone) \<rparr>"

definition steadyCluster :: resource_data where
  "steadyCluster = \<lparr> getProject = Inr ''p'', getLocation = Inr ''z-1-a'', getZone = Inr ''z-1-a'',
     d_region = [], d_name = ''c'', containerAPIVersion = v1, HasChange = (\<lambda>f. False),
     d_master_authorized_networks_config = [], d_min_master_version = [],
     d_master_version = ''1.1'', d_node_version = [], d_addons_config = None,
     d_maintenance_policy = None, d_additional_zones_old = {}, d_additional_zones = {},
     d_enable_legacy_abac = False, d_monitoring_service = [], d_network_policy = [],
     d_node_pool_count = 0, expandNodePool = (\<lambda>i. None), d_logging_service = [],
     d_pod_security_policy_config = [], d_remove_default_node_pool = False,
     d_network = None, d_ip_allocation_policy = [], d_master_ipv4_cidr_block = [],
     d_private_cluster = False \<rparr>"

definition steadyHealthCheck :: https_health_check where
  "steadyHealthCheck = \<lparr> hc_getProject = Inr ''p'', hc_collection_url = Inr ''u'',
     hc_id = Inr ''h'', hc_Post = None, hc_Convert = None, computeOperationWaitTime = None,
     hc_url = Inr ''u/h'', hc_Get = ReadDone \<rparr>"

definition clusterKey :: string where
  "clusterKey = ''google-container-cluster/p/z-1-a/c''"

text \<open>A private cluster without a master CIDR block.\<close>

definition privateWithoutCidr :: resource_data where
  "privateWithoutCidr = steadyCluster\<lparr>d_private_cluster := True\<rparr>"

text \<open>A cluster to be created without its default node pool.\<close>

definition withoutDefaultPool :: resource_data where
  "withoutDefaultPool = steadyCluster\<lparr>d_remove_default_node_pool := True\<rparr>"

text \<open>
  The upgrade of section 8: the master version, the node version and an addon change,
  from version 1.1 to 1.2.
\<close>

definition upgradeScenario :: resource_data where
  "upgradeScenario = steadyCluster\<lparr>
     HasChange := (\<lambda>f. f = min_master_version \<or> f = node_version \<or> f = addons_config),
     d_min_master_version := ''1.2'', d_node_version := ''1.2'', d_addons_config := Some ''x''\<rparr>"

text \<open>The same upgrade against an API on which the node upgrade operation fails.\<close>

definition nodeUpgradeFails :: "nat env" where
  "nodeUpgradeFails = quietEnv\<lparr>containerSharedOperationWait :=
     (\<lambda>s t. if t = updating node_version then Some (ApiError ''failed'') else None)\<rparr>"

text \<open>One additional zone replaced by another.\<close>

definition zonesMoved :: resource_data where
  "zonesMoved = steadyCluster\<lparr>HasChange := (\<lambda>f. f = additional_zones),
     d_additional_zones_old := {''z-1-b''}, d_additional_zones := {''z-1-c''}\<rparr>"



text \<open>A change of the minimum master version to the version the master already runs.\<close>

definition masterUpToDate :: resource_data where
  "masterUpToDate = steadyCluster\<lparr>HasChange := (\<lambda>f. f = min_master_version),
     d_min_master_version := ''1.1''\<rparr>"

section \<open>Properties of Create\<close>

lemmas create_defs = resourceContainerClusterCreate_def createLocked_def lockDeferUnlock_def
  call_def wait_def removeDefaultNodePool_def resourceContainerClusterRead_def Let_def

lemmas health_check_defs = resourceComputeHttpsHealthCheckCreate_def
  resourceComputeHttpsHealthCheckRead_def Let_def

lemma cluster_create_wait_failure:
  assumes "resourceContainerClusterCreate E d [] = (r, tr)"
    and "Wait creating (Some e) \<in> set tr"
  shows "r = Some e \<and> finalId i tr = []
     \<and> (\<exists>pre k. tr = pre @ [Wait creating (Some e), SetId [], Unlock k])"
  using assms
  by (auto simp: create_defs finalId_def
      split: sum.splits option.splits if_splits read_outcome.splits)

lemma health_check_create_wait_failure:
  assumes "resourceComputeHttpsHealthCheckCreate h [] = (r, tr)"
    and "Wait creating_https_health_check (Some e) \<in> set tr"
  shows "r = Some e \<and> finalId i tr = []
     \<and> (\<exists>pre. tr = pre @ [Wait creating_https_health_check (Some e), SetId []])"
  using assms
  by (auto simp: health_check_defs finalId_def
      split: sum.splits option.splits if_splits read_outcome.splits)

text \<open>
  C6. When the wait for the creation operation ends in an error (the operation failed or
  the time budget ran out), Create returns that error and the id the resource data holds
  is the empty string: clearing the id is the last write before the return (for the
  cluster only the release of the lock follows). This holds for the container cluster and
  for the HTTPS health check.
\<close>

theorem create_wait_failure_clears_id:
  "(resourceContainerClusterCreate E d [] = (r, tr) \<and> Wait creating (Some e) \<in> set tr
      \<longrightarrow> r = Some e \<and> finalId i tr = []
          \<and> (\<exists>pre k. tr = pre @ [Wait creating (Some e), SetId [], Unlock k]))
   \<and> (resourceComputeHttpsHealthCheckCreate h [] = (r', tr')
        \<and> Wait creating_https_health_check (Some e') \<in> set tr'
      \<longrightarrow> r' = Some e' \<and> finalId i' tr' = []
          \<and> (\<exists>pre. tr' = pre @ [Wait creating_https_health_check (Some e'), SetId []]))"
  using cluster_create_wait_failure [of E d r tr e i]
    health_check_create_wait_failure [of h r' tr' e' i']
  by blast

theorem create_wait_failure_clears_id_witness:
  "resourceContainerClusterCreate
       (quietEnv\<lparr>containerSharedOperationWait := \<lambda>s t. Some (ApiError ''timeout'')\<rparr>)
       steadyCluster []
     = (Some (ApiError ''timeout''),
        [Lock ''google-container-cluster/p/z-1-a/c'',
         Call creating (CreateClusterRequest \<lparr>Name = ''c'', InitialClusterVersion = [],
           Locations = {}, MasterIpv4CidrBlock = [], PrivateCluster = False,
           IpAllocationPolicy = None\<rparr>) None,
         SetId ''c'', Wait creating (Some (ApiError ''timeout'')), SetId [],
         Unlock ''google-container-cluster/p/z-1-a/c''])
   \<and> finalId ''c''
        (snd (resourceContainerClusterCreate
          (quietEnv\<lparr>containerSharedOperationWait := \<lambda>s t. Some (ApiError ''timeout'')\<rparr>)
          steadyCluster [])) = []
   \<and> resourceComputeHttpsHealthCheckCreate
       (steadyHealthCheck\<lparr>computeOperationWaitTime := Some (ApiError ''failed'')\<rparr>) []
     = (Some (ApiError ''failed''),
        [Call creating_https_health_check (HttpsHealthChecksInsert ''u'') None, SetId ''h'',
         Wait creating_https_health_check (Some (ApiError ''failed'')), SetId []])
   \<and> finalId ''h''
        (snd (resourceComputeHttpsHealthCheckCreate
          (steadyHealthCheck\<lparr>computeOperationWaitTime := Some (ApiError ''failed'')\<rparr>) [])) = []"
proof -
  let ?E = "quietEnv\<lparr>containerSharedOperationWait := \<lambda>s t. Some (ApiError ''timeout'')\<rparr>"
  let ?h = "steadyHealthCheck\<lparr>computeOperationWaitTime := Some (ApiError ''failed'')\<rparr>"
  let ?k = "''google-container-cluster/p/z-1-a/c''"
  let ?c = "\<lparr>Name = ''c'', InitialClusterVersion = [], Locations = {},
     MasterIpv4CidrBlock = [], PrivateCluster = False, IpAllocationPolicy = None\<rparr>"
  let ?tr = "[Lock ?k, Call creating (CreateClusterRequest ?c) None, SetId ''c'',
     Wait creating (Some (ApiError ''timeout'')), SetId [], Unlock ?k]"
  let ?tr' = "[Call creating_https_health_check (HttpsHealthChecksInsert ''u'') None, SetId ''h'',
     Wait creating_https_health_check (Some (ApiError ''failed'')), SetId []]"
  have run: "resourceContainerClusterCreate ?E steadyCluster [] = (Some (ApiError ''timeout''), ?tr)"
    by (simp add: create_defs buildCluster_def quietEnv_def steadyCluster_def
        containerClusterMutexKey_def beforeDash_def)
  have run': "resourceComputeHttpsHealthCheckCreate ?h [] = (Some (ApiError ''failed''), ?tr')"
    by (simp add: health_check_defs steadyHealthCheck_def)
  have ev: "Wait creating (Some (ApiError ''timeout'')) \<in> set ?tr"
    and ev': "Wait creating_https_health_check (Some (ApiError ''failed'')) \<in> set ?tr'"
    by simp_all
  from create_wait_failure_clears_id
    [of ?E steadyCluster "Some (ApiError ''timeout'')" ?tr "ApiError ''timeout''" "''c''"
        ?h "Some (ApiError ''failed'')" ?tr' "ApiError ''failed''" "''h''"]
    run run' ev ev'
  show ?thesis by simp
qed

text \<open>
  C5. Create checks its cross-field preconditions before it takes the lock or sends
  anything. When the node version is set and differs from the minimum master version
  (both read up to the first dash), when the additional zones contain the location of
  the cluster, or when a private cluster lacks its master CIDR block or its IP allocation
  policy, Create returns an error and its trace is empty: no lock, no remote call. When
  nothing else fails first (project, location, network, node pools and IP allocation
  policy all resolve), that error is one of the four messages of these checks.
\<close>

theorem create_checks_preconditions_first:
  assumes "resourceContainerClusterCreate E d [] = (r, tr)" and "violatesPreconditions d"
  shows "r \<noteq> None \<and> tr = []
     \<and> (\<not> isl (getProject d) \<and> \<not> isl (getLocation d) \<and> d_network d = None
          \<and> firstError (expandNodePool d) [0..<d_node_pool_count d] = None
          \<and> \<not> isl (expandIPAllocationPolicy (d_ip_allocation_policy d))
        \<longrightarrow> r \<in> Some ` validationErrors)"
  using assms
  by (auto simp: resourceContainerClusterCreate_def buildCluster_def violatesPreconditions_def
      validationErrors_def Let_def split: sum.splits option.splits if_splits)

theorem create_checks_preconditions_first_witness:
  "violatesPreconditions privateWithoutCidr
   \<and> resourceContainerClusterCreate quietEnv privateWithoutCidr [] = (Some cidrBlockMissing, [])"
proof -
  have v: "violatesPreconditions privateWithoutCidr"
    by (simp add: violatesPreconditions_def privateWithoutCidr_def steadyCluster_def)
  have run: "resourceContainerClusterCreate quietEnv privateWithoutCidr []
      = (Some cidrBlockMissing, [])"
    by (simp add: resourceContainerClusterCreate_def buildCluster_def privateWithoutCidr_def
        steadyCluster_def beforeDash_def)
  from create_checks_preconditions_first[OF run v] v run show ?thesis
    by simp
qed

text \<open>
  C8. When Create is asked to remove the default node pool and the creation operation
  succeeded, the request that deletes the pool is sent after the key of the cluster was
  taken and before it is released; if that request is accepted the wait for its operation
  follows at once; the lock is neither taken nor released in between, and its release is
  the last event of the call.
\<close>

theorem default_pool_removed_under_create_lock:
  assumes "resourceContainerClusterCreate E d [] = (r, tr)"
    and "d_remove_default_node_pool d" and "Wait creating None \<in> set tr"
  shows "\<exists>project location c rc rest.
     getProject d = Inr project \<and> getLocation d = Inr location
     \<and> tr = [Lock (containerClusterMutexKey project location (d_name d)),
             Call creating (CreateClusterRequest c) None, SetId (d_name d), Wait creating None,
             Call removing_default_node_pool (NodePoolsDelete ''default-pool'') rc]
            @ rest @ [Unlock (containerClusterMutexKey project location (d_name d))]
     \<and> lockEvents rest = []
     \<and> (rc = None \<longrightarrow> rest \<noteq> [] \<and> (\<exists>rw. hd rest = Wait removing_default_node_pool rw))"
  using assms
  by (auto simp: create_defs lockEvents_def emit_def
      split: sum.splits option.splits if_splits read_outcome.splits)

theorem default_pool_removed_under_create_lock_witness:
  "d_remove_default_node_pool withoutDefaultPool
   \<and> resourceContainerClusterCreate quietEnv withoutDefaultPool []
     = (None,
        [Lock ''google-container-cluster/p/z-1-a/c'',
         Call creating (CreateClusterRequest \<lparr>Name = ''c'', InitialClusterVersion = [],
           Locations = {}, MasterIpv4CidrBlock = [], PrivateCluster = False,
           IpAllocationPolicy = None\<rparr>) None,
         SetId ''c'', Wait creating None,
         Call removing_default_node_pool (NodePoolsDelete ''default-pool'') None,
         Wait removing_default_node_pool None, Get ReadDone,
         Unlock ''google-container-cluster/p/z-1-a/c''])"
proof -
  let ?k = "''google-container-cluster/p/z-1-a/c''"
  let ?tr = "[Lock ?k,
         Call creating (CreateClusterRequest \<lparr>Name = ''c'', InitialClusterVersion = [],
           Locations = {}, MasterIpv4CidrBlock = [], PrivateCluster = False,
           IpAllocationPolicy = None\<rparr>) None,
         SetId ''c'', Wait creating None,
         Call removing_default_node_pool (NodePoolsDelete ''default-pool'') None,
         Wait removing_default_node_pool None, Get ReadDone, Unlock ?k]"
  have flag: "d_remove_default_node_pool withoutDefaultPool"
    by (simp add: withoutDefaultPool_def)
  have run: "resourceContainerClusterCreate quietEnv withoutDefaultPool [] = (None, ?tr)"
    by (simp add: create_defs buildCluster_def quietEnv_def withoutDefaultPool_def
        steadyCluster_def containerClusterMutexKey_def beforeDash_def)
  have ev: "Wait creating None \<in> set ?tr"
    by simp
  from default_pool_removed_under_create_lock[OF run flag ev] flag run show ?thesis
    by simp
qed


section \<open>Properties of Delete\<close>




section \<open>The blocks of Update\<close>

lemma lockedCall_updateFunc:
  assumes "lockedCall k (updateFunc E api t req) s = (r, s')"
  shows "(r = None \<and> s' = s @ [Lock k, Call t req None, Wait t None, Unlock k])
    \<or> (\<exists>e. r = Some e \<and> (s' = s @ [Lock k, Unlock k]
          \<or> s' = s @ [Lock k, Call t req (Some e), Unlock k]
          \<or> s' = s @ [Lock k, Call t req None, Wait t (Some e), Unlock k]))"
  using assms
  by (auto simp: lockedCall_def lockDeferUnlock_def updateFunc_def call_def wait_def Let_def
      split: api_version.splits option.splits prod.splits)

lemma lockedStep:
  assumes "seq [lockedCall k (updateFunc E api t req), emit x] s = (r, s')"
  shows "(r = None \<and> s' = s @ [Lock k, Call t req None, Wait t None, Unlock k, x])
    \<or> (\<exists>e. r = Some e \<and> (s' = s @ [Lock k, Unlock k]
          \<or> s' = s @ [Lock k, Call t req (Some e), Unlock k]
          \<or> s' = s @ [Lock k, Call t req None, Wait t (Some e), Unlock k]))"
  using assms
  by (auto simp: lockedCall_def lockDeferUnlock_def updateFunc_def call_def wait_def Let_def emit_def
      split: api_version.splits option.splits prod.splits)

lemmas outcome_defs = blockOutcome_def emitsFor_def lockRun_def requestFields_def sentSteps_def
  afterFailure_def List.map_filter_def

lemma skip_outcome: "blockOutcome k d f s None s"
  by (simp add: outcome_defs)

lemma early_outcome: "blockOutcome k d f s (Some e) s"
  by (simp add: outcome_defs)

lemma recorded_outcome: "blockOutcome k d f s None (s @ [SetPartial f])"
  by (simp add: outcome_defs)

lemma lockedStep_outcome:
  assumes "seq [lockedCall k (updateFunc E api (updating f) req), emit (SetPartial f)] s = (r, s')"
    and "HasChange d f" and "singleGroup (Call (updating f) req None)"
  shows "blockOutcome k d f s r s'"
  using lockedStep[OF assms(1)] assms(2,3)
  by (cases req) (auto simp: outcome_defs)

lemma updateFunc_v1: "seq [call E t req, wait E t] = updateFunc E v1 t req"
  by (rule ext) (simp add: updateFunc_def)

lemma seq_skip_emit: "seq [Pair None, emit x] s = (None, s @ [x])"
  by (simp add: emit_def)

lemma master_authorized_networks_config_outcome:
  assumes "update_master_authorized_networks_config E d k s = (r, s')"
  shows "blockOutcome k d master_authorized_networks_config s r s'"
  using assms
  by (auto simp del: seq.simps simp: update_master_authorized_networks_config_def ClusterUpdate_def
      intro: skip_outcome early_outcome lockedStep_outcome split: if_splits sum.splits)

lemma min_master_version_outcome:
  assumes "update_min_master_version E d k s = (r, s')"
  shows "blockOutcome k d min_master_version s r s'"
  using assms
  by (auto simp del: seq.simps simp: update_min_master_version_def ClusterUpdate_def Let_def
      seq_skip_emit
      intro: skip_outcome early_outcome lockedStep_outcome recorded_outcome
      split: if_splits sum.splits)

lemma node_version_outcome:
  assumes "update_node_version E d k s = (r, s')"
  shows "blockOutcome k d node_version s r s'"
  using assms
  by (auto simp del: seq.simps simp: update_node_version_def ClusterUpdate_def
      intro: skip_outcome early_outcome lockedStep_outcome split: if_splits sum.splits)

lemma addons_config_outcome:
  assumes "update_addons_config E d k s = (r, s')"
  shows "blockOutcome k d addons_config s r s'"
  using assms
  by (auto simp del: seq.simps simp: update_addons_config_def ClusterUpdate_def
      intro: skip_outcome early_outcome lockedStep_outcome
      split: if_splits sum.splits option.splits)

lemma maintenance_policy_outcome:
  assumes "update_maintenance_policy E d k s = (r, s')"
  shows "blockOutcome k d maintenance_policy s r s'"
  using assms
  by (auto simp del: seq.simps simp: update_maintenance_policy_def
      intro: skip_outcome early_outcome lockedStep_outcome
      split: if_splits sum.splits option.splits)

lemma enable_legacy_abac_outcome:
  assumes "update_enable_legacy_abac E d k s = (r, s')"
  shows "blockOutcome k d enable_legacy_abac s r s'"
  using assms
  by (auto simp del: seq.simps simp: update_enable_legacy_abac_def
      intro: skip_outcome early_outcome lockedStep_outcome split: if_splits sum.splits)

lemma monitoring_service_outcome:
  assumes "update_monitoring_service E d k s = (r, s')"
  shows "blockOutcome k d monitoring_service s r s'"
  using assms
  by (auto simp del: seq.simps simp: update_monitoring_service_def ClusterUpdate_def
      intro: skip_outcome early_outcome lockedStep_outcome split: if_splits sum.splits)

lemma network_policy_outcome:
  assumes "update_network_policy E d k s = (r, s')"
  shows "blockOutcome k d network_policy s r s'"
  using assms
  by (auto simp del: seq.simps simp: update_network_policy_def
      intro: skip_outcome early_outcome lockedStep_outcome split: if_splits sum.splits)

lemma logging_service_outcome:
  assumes "update_logging_service E d k s = (r, s')"
  shows "blockOutcome k d logging_service s r s'"
  using assms
  by (auto simp del: seq.simps simp: update_logging_service_def
      intro: skip_outcome early_outcome lockedStep_outcome split: if_splits sum.splits)

lemma pod_security_policy_config_outcome:
  assumes "update_pod_security_policy_config E d k s = (r, s')"
  shows "blockOutcome k d pod_security_policy_config s r s'"
  using assms
  by (auto simp del: seq.simps simp: update_pod_security_policy_config_def ClusterUpdate_def updateFunc_v1
      intro: skip_outcome early_outcome lockedStep_outcome split: if_splits sum.splits)



lemma remove_default_node_pool_outcome:
  assumes "update_remove_default_node_pool E d s = (r, s')"
  shows "blockOutcome k d remove_default_node_pool s r s'"
proof (cases "HasChange d remove_default_node_pool \<and> d_remove_default_node_pool d")
  case False
  with assms show ?thesis
    by (auto simp: update_remove_default_node_pool_def intro: skip_outcome)
next
  case True
  with assms have "removeDefaultNodePool E s = (r, s')"
    by (simp add: update_remove_default_node_pool_def)
  then consider e e' where "r = Some e'"
      "s' = s @ [Call removing_default_node_pool (NodePoolsDelete ''default-pool'') (Some e)]"
    | e e' where "r = Some e'"
      "s' = s @ [Call removing_default_node_pool (NodePoolsDelete ''default-pool'') None,
                 Wait removing_default_node_pool (Some e)]"
    | "r = None"
      "s' = s @ [Call removing_default_node_pool (NodePoolsDelete ''default-pool'') None,
                 Wait removing_default_node_pool None]"
    by (auto simp: removeDefaultNodePool_def call_def wait_def Let_def split: option.splits)
  then show ?thesis
    using True by cases (simp_all add: outcome_defs)
qed

lemma additional_zones_outcome:
  assumes "update_additional_zones E d location k s = (r, s')"
  shows "blockOutcome k d additional_zones s r s'"
proof (cases "HasChange d additional_zones \<and> location \<notin> d_additional_zones d")
  case False
  with assms show ?thesis
    by (auto simp: update_additional_zones_def Let_def intro: skip_outcome early_outcome
        split: if_splits)
next
  case True
  let ?t = "updating additional_zones"
  define U where "U = UpdateClusterRequest (ClusterUpdate\<lparr>DesiredLocations :=
     (if isZone E location then insert location (d_additional_zones_old d \<union> d_additional_zones d)
      else d_additional_zones_old d \<union> d_additional_zones d)\<rparr>)"
  define N where "N = UpdateClusterRequest (ClusterUpdate\<lparr>DesiredLocations :=
     (if isZone E location then insert location (d_additional_zones d) else d_additional_zones d)\<rparr>)"
  obtain r1 s1 where first: "lockedCall k (updateFunc E (containerAPIVersion d) ?t U) s = (r1, s1)"
    by force
  have sg: "singleGroup (Call ?t U x)" "singleGroup (Call ?t N x)" for x
    by (simp_all add: U_def N_def ClusterUpdate_def)
  from lockedCall_updateFunc[OF first]
  consider (ok) "r1 = None" "s1 = s @ [Lock k, Call ?t U None, Wait ?t None, Unlock k]"
    | (bad) e where "r1 = Some e" "s1 = s @ [Lock k, Unlock k] \<or> s1 = s @ [Lock k, Call ?t U (Some e), Unlock k]
          \<or> s1 = s @ [Lock k, Call ?t U None, Wait ?t (Some e), Unlock k]"
    by blast
  then show ?thesis
  proof cases
    case bad
    with assms True first have "r = Some e" "s' = s1"
      by (simp_all add: update_additional_zones_def Let_def U_def)
    with bad True sg show ?thesis
      by (auto simp: outcome_defs)
  next
    case ok
    show ?thesis
    proof (cases "U = N")
      case same: True
      with assms True first ok have "r = None" "s' = s1 @ [SetPartial additional_zones]"
        by (simp_all add: update_additional_zones_def Let_def U_def N_def seq_skip_emit
            ClusterUpdate_def del: seq.simps)
      with ok True sg show ?thesis
        by (auto simp: outcome_defs)
    next
      case False
      with assms True first ok
      have "seq [lockedCall k (updateFunc E (containerAPIVersion d) ?t N),
                 emit (SetPartial additional_zones)] s1 = (r, s')"
        by (auto simp: update_additional_zones_def Let_def U_def N_def ClusterUpdate_def
            simp del: seq.simps split: if_splits)
      from lockedStep[OF this] ok True sg show ?thesis
        by (auto simp: outcome_defs)
    qed
  qed
qed


lemma nodePoolRound_cases:
  assumes "nodePoolRound E d i s = (r, s')"
  shows "(r = None \<and> s' = s @ [NodePoolUpdate i None])
     \<or> (\<exists>e. r = Some e \<and> (s' = s \<or> s' = s @ [NodePoolUpdate i (Some e)]))"
  using assms
  by (auto simp: nodePoolRound_def Let_def split: sum.splits)

lemma node_pool_rounds:
  assumes "seq (map (nodePoolRound E d) is @ [emit (SetPartial node_pool)]) s = (r, s')"
  shows "\<exists>evs. s' = s @ evs
     \<and> (\<forall>x\<in>set evs. (\<exists>i r. x = NodePoolUpdate i r) \<or> x = SetPartial node_pool)
     \<and> (case r of
           None \<Rightarrow> (\<forall>x\<in>set evs. \<not> failed x) \<and> SetPartial node_pool \<in> set evs
         | Some e \<Rightarrow> SetPartial node_pool \<notin> set evs \<and> afterFailure evs = [])"
  using assms
proof (induction "is" arbitrary: s)
  case Nil
  then show ?case by (auto simp: emit_def)
next
  case (Cons i "is")
  obtain r1 s1 where round: "nodePoolRound E d i s = (r1, s1)"
    by force
  from nodePoolRound_cases[OF round]
  consider (ok) "r1 = None" "s1 = s @ [NodePoolUpdate i None]"
    | (bad) e where "r1 = Some e" "s1 = s \<or> s1 = s @ [NodePoolUpdate i (Some e)]"
    by blast
  then show ?case
  proof cases
    case ok
    with Cons.prems round
    have "seq (map (nodePoolRound E d) is @ [emit (SetPartial node_pool)]) s1 = (r, s')"
      by simp
    from Cons.IH[OF this] obtain evs where evs: "s' = s1 @ evs"
      "\<forall>x\<in>set evs. (\<exists>i r. x = NodePoolUpdate i r) \<or> x = SetPartial node_pool"
      "case r of
         None \<Rightarrow> (\<forall>x\<in>set evs. \<not> failed x) \<and> SetPartial node_pool \<in> set evs
       | Some e \<Rightarrow> SetPartial node_pool \<notin> set evs \<and> afterFailure evs = []"
      by blast
    show ?thesis
    proof (intro exI[of _ "NodePoolUpdate i None # evs"] conjI)
      show "s' = s @ NodePoolUpdate i None # evs"
        using evs(1) ok by simp
      show "\<forall>x\<in>set (NodePoolUpdate i None # evs). (\<exists>i r. x = NodePoolUpdate i r) \<or> x = SetPartial node_pool"
        using evs(2) by simp
      show "case r of
         None \<Rightarrow> (\<forall>x\<in>set (NodePoolUpdate i None # evs). \<not> failed x)
            \<and> SetPartial node_pool \<in> set (NodePoolUpdate i None # evs)
       | Some e \<Rightarrow> SetPartial node_pool \<notin> set (NodePoolUpdate i None # evs)
            \<and> afterFailure (NodePoolUpdate i None # evs) = []"
        using evs(3) by (simp add: afterFailure_def split: option.splits)
    qed
  next
    case bad
    with Cons.prems round have "r = Some e" "s' = s1"
      by simp_all
    with bad show ?thesis
      by (auto simp: afterFailure_def)
  qed
qed

lemma neutral_lockRun:
  assumes "\<forall>x\<in>set evs. lockStep k Free x = Free"
  shows "lockRun k evs = Free"
  using assms unfolding lockRun_def
  by (induction evs) simp_all

lemma node_pool_outcome:
  assumes "update_node_pool E d s = (r, s')"
  shows "blockOutcome k d node_pool s r s'"
proof (cases "d_node_pool_count d = 0")
  case True
  with assms show ?thesis
    by (simp add: update_node_pool_def skip_outcome)
next
  case False
  with assms
  have "seq (map (nodePoolRound E d) [0..<d_node_pool_count d] @ [emit (SetPartial node_pool)]) s = (r, s')"
    by (simp add: update_node_pool_def)
  from node_pool_rounds[OF this] obtain evs where evs: "s' = s @ evs"
    "\<forall>x\<in>set evs. (\<exists>i r. x = NodePoolUpdate i r) \<or> x = SetPartial node_pool"
    "case r of
       None \<Rightarrow> (\<forall>x\<in>set evs. \<not> failed x) \<and> SetPartial node_pool \<in> set evs
     | Some e \<Rightarrow> SetPartial node_pool \<notin> set evs \<and> afterFailure evs = []"
    by blast
  have "filter (\<lambda>x. requestField x \<noteq> None) evs = []"
    using evs(2) by (auto simp: filter_empty_conv)
  then have "requestFields evs = []"
    by (simp add: requestFields_def List.map_filter_def)
  moreover from evs(2) have "\<forall>x\<in>set evs. eventField x = None \<or> eventField x = Some node_pool"
    and "\<forall>x\<in>set evs. failed x \<longrightarrow> eventField x = Some node_pool"
    and "\<forall>x\<in>set evs. singleGroup x"
    by auto
  ultimately have "emitsFor d node_pool evs"
    by (simp add: emitsFor_def)
  moreover have "lockRun k evs = Free"
    using evs(2) by (intro neutral_lockRun) auto
  moreover have "case r of
       None \<Rightarrow> (\<forall>x\<in>set evs. \<not> failed x)
          \<and> (sentSteps evs \<noteq> [] \<longrightarrow> node_pool = remove_default_node_pool \<or> SetPartial node_pool \<in> set evs)
     | Some e \<Rightarrow> SetPartial node_pool \<notin> set evs \<and> (\<forall>y\<in>set (afterFailure evs). isLockEvent y)"
    using evs(3) by (simp split: option.splits)
  ultimately show ?thesis
    using evs(1) unfolding blockOutcome_def by blast
qed

section \<open>The sequence of blocks\<close>

lemma sentSteps_append: "sentSteps (a @ b) = sentSteps a @ sentSteps b"
  by (simp add: sentSteps_def List.map_filter_def)

lemma requestFields_append: "requestFields (a @ b) = requestFields a @ requestFields b"
  by (simp add: requestFields_def List.map_filter_def)

lemma sentStep_field: "sentStep x = Some g \<Longrightarrow> eventField x = Some g"
  by (cases x) simp_all

lemma requestField_field: "requestField x = Some g \<Longrightarrow> eventField x = Some g"
  by (cases x) simp_all

lemma sentSteps_field:
  assumes "g \<in> set (sentSteps evs)"
  shows "\<exists>x\<in>set evs. eventField x = Some g"
proof -
  from assms obtain x where "x \<in> set evs" "sentStep x = Some g"
    by (auto simp: sentSteps_def List.map_filter_def)
  then show ?thesis
    using sentStep_field by blast
qed

lemma requestFields_field:
  assumes "g \<in> set (requestFields evs)"
  shows "\<exists>x\<in>set evs. eventField x = Some g"
proof -
  from assms obtain x where "x \<in> set evs" "requestField x = Some g"
    by (auto simp: requestFields_def List.map_filter_def)
  then show ?thesis
    using requestField_field by blast
qed

lemma lockRun_append: "lockRun k a = Free \<Longrightarrow> lockRun k (a @ b) = lockRun k b"
  by (simp add: lockRun_def)

lemma count_list_le_length: "count_list xs x \<le> length xs"
  by (induction xs) auto

lemma sorted_constant:
  assumes "\<forall>x\<in>set xs. h x = (c::nat)"
  shows "sorted (map h xs)"
  using assms by (induction xs) auto

lemma stepsInv_mono:
  assumes "stepsInv k d i evs" and "i \<le> j"
  shows "stepsInv k d j evs"
  using assms unfolding stepsInv_def by fastforce

lemma stepsInv_step:
  assumes inv: "stepsInv k d i evs" and rank: "rank f = i"
    and em: "emitsFor d f evs1" and lock: "lockRun k evs1 = Free"
  shows "stepsInv k d (Suc i) (evs @ evs1)"
proof -
  have fields1: "\<forall>x\<in>set evs1. eventField x = None \<or> eventField x = Some f"
    using em unfolding emitsFor_def by blast
  have only: "g = f" if "g \<in> set (sentSteps evs1) \<or> g \<in> set (requestFields evs1)" for g
  proof -
    from that obtain x where "x \<in> set evs1" "eventField x = Some g"
      using sentSteps_field[of g evs1] requestFields_field[of g evs1] by blast
    with fields1 show ?thesis by force
  qed
  have below: "rank g < i" if "g \<in> set (sentSteps evs) \<or> g \<in> set (requestFields evs)" for g
    using that inv sentSteps_field[of g evs] requestFields_field[of g evs]
    unfolding stepsInv_def by auto
  have "\<forall>x\<in>set (evs @ evs1). \<forall>g. eventField x = Some g \<longrightarrow> rank g < Suc i"
    using inv em rank unfolding stepsInv_def emitsFor_def by fastforce
  moreover have "sorted (map rank (sentSteps (evs @ evs1)))"
  proof -
    have "sorted (map rank (sentSteps evs1))"
      using only by (intro sorted_constant[where c="rank f"]) auto
    then show ?thesis
      using inv only below rank
      by (fastforce simp: sentSteps_append sorted_append stepsInv_def)
  qed
  moreover have "count_list (requestFields (evs @ evs1)) g
      \<le> (if g = additional_zones then 2 else 1)" for g
  proof (cases "g = f")
    case True
    have "g \<notin> set (requestFields evs)"
      using below[of g] True rank by auto
    then have "count_list (requestFields evs) g = 0"
      by (simp add: count_list_0_iff)
    moreover have "count_list (requestFields evs1) g \<le> (if g = additional_zones then 2 else 1)"
      using em count_list_le_length[of "requestFields evs1" g] True
      unfolding emitsFor_def by auto
    ultimately show ?thesis
      by (simp add: requestFields_append)
  next
    case False
    then have "g \<notin> set (requestFields evs1)"
      using only by auto
    then have "count_list (requestFields evs1) g = 0"
      by (simp add: count_list_0_iff)
    then show ?thesis
      using inv unfolding stepsInv_def by (simp add: requestFields_append)
  qed
  moreover have "\<forall>g\<in>set (requestFields (evs @ evs1)). HasChange d g"
  proof -
    have "HasChange d g" if "g \<in> set (requestFields evs1)" for g
      using that only[of g] em unfolding emitsFor_def by auto
    then show ?thesis
      using inv unfolding stepsInv_def by (auto simp: requestFields_append)
  qed
  moreover have "\<forall>x\<in>set (evs @ evs1). singleGroup x"
    using inv em unfolding stepsInv_def emitsFor_def by auto
  moreover have "lockRun k (evs @ evs1) = Free"
    using inv lock unfolding stepsInv_def by (simp add: lockRun_append)
  ultimately show ?thesis
    unfolding stepsInv_def by blast
qed


lemma allApplied_step:
  assumes "allApplied evs" and "emitsFor d f evs1"
    and "\<forall>x\<in>set evs1. \<not> failed x"
    and "sentSteps evs1 \<noteq> [] \<longrightarrow> f = remove_default_node_pool \<or> SetPartial f \<in> set evs1"
  shows "allApplied (evs @ evs1)"
proof -
  have "g = remove_default_node_pool \<or> SetPartial g \<in> set evs1"
    if "g \<in> set (sentSteps evs1)" for g
  proof -
    from that obtain x where "x \<in> set evs1" "eventField x = Some g"
      using sentSteps_field by blast
    with assms(2) have "g = f"
      unfolding emitsFor_def by force
    with that assms(4) show ?thesis by auto
  qed
  with assms(1,3) show ?thesis
    unfolding allApplied_def by (auto simp: sentSteps_append)
qed

lemma find_append_none:
  assumes "\<forall>x\<in>set a. \<not> P x"
  shows "List.find P (a @ b) = List.find P b"
  using assms by (induction a) auto

lemma rank_le: "rank f \<le> 12"
  by (cases f) simp_all

lemma stopped_step:
  assumes app: "allApplied evs" and inv: "stepsInv k d i evs" and rank: "rank f = i"
    and em: "emitsFor d f evs1" and unrec: "SetPartial f \<notin> set evs1"
    and after: "\<forall>y\<in>set (afterFailure evs1). isLockEvent y"
  shows "stoppedAtFailure (evs @ evs1)"
  unfolding stoppedAtFailure_def
proof (intro allI impI)
  fix x
  assume first: "firstFailure (evs @ evs1) = Some x"
  have nofail: "\<forall>x\<in>set evs. \<not> failed x"
    using app unfolding allApplied_def by blast
  have fields1: "\<forall>x\<in>set evs1. eventField x = None \<or> eventField x = Some f"
    and failed1: "\<forall>x\<in>set evs1. failed x \<longrightarrow> eventField x = Some f"
    using em unfolding emitsFor_def by blast+
  from first nofail have "List.find failed evs1 = Some x"
    by (simp add: firstFailure_def find_append_none)
  then have "x \<in> set evs1" "failed x"
    by (auto simp: find_Some_iff)
  with failed1 have field: "eventField x = Some f" by blast
  have "afterFailure (evs @ evs1) = afterFailure evs1"
    using nofail by (simp add: afterFailure_def dropWhile_append2)
  with after have 1: "\<forall>y\<in>set (afterFailure (evs @ evs1)). isLockEvent y"
    by simp
  have "SetPartial f \<notin> set evs"
  proof
    assume "SetPartial f \<in> set evs"
    with inv have "rank f < i"
      unfolding stepsInv_def by force
    with rank show False by simp
  qed
  with unrec have 2: "SetPartial f \<notin> set (evs @ evs1)"
    by simp
  have 3: "SetPartial h \<in> set (evs @ evs1)" if "h \<in> set (sentSteps (evs @ evs1))" "h \<noteq> f" for h
  proof -
    have "h \<notin> set (sentSteps evs1)"
    proof
      assume "h \<in> set (sentSteps evs1)"
      then obtain y where "y \<in> set evs1" "eventField y = Some h"
        using sentSteps_field by blast
      with fields1 have "h = f" by force
      with that(2) show False by simp
    qed
    with that(1) have h: "h \<in> set (sentSteps evs)"
      by (simp add: sentSteps_append)
    then obtain y where "y \<in> set evs" "eventField y = Some h"
      using sentSteps_field by blast
    with inv have "rank h < i"
      unfolding stepsInv_def by blast
    with rank rank_le[of f] have "h \<noteq> remove_default_node_pool"
      by auto
    with h app show ?thesis
      unfolding allApplied_def by auto
  qed
  from 1 2 3 field
  show "(\<forall>y\<in>set (afterFailure (evs @ evs1)). isLockEvent y)
      \<and> (\<exists>g. eventField x = Some g \<and> SetPartial g \<notin> set (evs @ evs1)
            \<and> (\<forall>h\<in>set (sentSteps (evs @ evs1)). h \<noteq> g \<longrightarrow> SetPartial h \<in> set (evs @ evs1)))"
    by blast
qed

lemma below_13:
  assumes "i < 13"
  obtains "i = 0" | "i = 1" | "i = 2" | "i = 3" | "i = 4" | "i = 5" | "i = 6" | "i = 7"
    | "i = 8" | "i = 9" | "i = 10" | "i = 11" | "i = (12::nat)"
proof -
  from assms have "i = 0 \<or> i = 1 \<or> i = 2 \<or> i = 3 \<or> i = 4 \<or> i = 5 \<or> i = 6 \<or> i = 7
      \<or> i = 8 \<or> i = 9 \<or> i = 10 \<or> i = 11 \<or> i = 12"
    by arith
  with that show thesis by blast
qed

lemma rank_precedence:
  assumes "i < 13"
  shows "rank (precedence ! i) = i"
  using assms by (rule below_13) (simp_all add: precedence_def)

lemma updateSteps_nth:
  assumes "i < 13" and "(updateSteps E d location k ! i) s = (r, s')"
  shows "blockOutcome k d (precedence ! i) s r s'"
  using assms(1)
proof (rule below_13)
  assume "i = 0" with assms(2) show ?thesis
    by (simp add: updateSteps_def precedence_def master_authorized_networks_config_outcome)
next
  assume "i = 1" with assms(2) show ?thesis
    by (simp add: updateSteps_def precedence_def min_master_version_outcome)
next
  assume "i = 2" with assms(2) show ?thesis
    by (simp add: updateSteps_def precedence_def node_version_outcome)
next
  assume "i = 3" with assms(2) show ?thesis
    by (simp add: updateSteps_def precedence_def addons_config_outcome)
next
  assume "i = 4" with assms(2) show ?thesis
    by (simp add: updateSteps_def precedence_def maintenance_policy_outcome)
next
  assume "i = 5" with assms(2) show ?thesis
    by (simp add: updateSteps_def precedence_def additional_zones_outcome)
next
  assume "i = 6" with assms(2) show ?thesis
    by (simp add: updateSteps_def precedence_def enable_legacy_abac_outcome)
next
  assume "i = 7" with assms(2) show ?thesis
    by (simp add: updateSteps_def precedence_def monitoring_service_outcome)
next
  assume "i = 8" with assms(2) show ?thesis
    by (simp add: updateSteps_def precedence_def network_policy_outcome)
next
  assume "i = 9" with assms(2) show ?thesis
    by (simp add: updateSteps_def precedence_def node_pool_outcome)
next
  assume "i = 10" with assms(2) show ?thesis
    by (simp add: updateSteps_def precedence_def logging_service_outcome)
next
  assume "i = 11" with assms(2) show ?thesis
    by (simp add: updateSteps_def precedence_def pod_security_policy_config_outcome)
next
  assume "i = 12" with assms(2) show ?thesis
    by (simp add: updateSteps_def precedence_def remove_default_node_pool_outcome)
qed

lemma length_updateSteps: "length (updateSteps E d location k) = 13"
  by (simp add: updateSteps_def)

lemma steps_between:
  assumes "n = j - i" and "i \<le> j" and "j \<le> 13" and "stepsInv k d i evs" and "allApplied evs"
    and "seq (take (j - i) (drop i (updateSteps E d location k))) (s0 @ evs) = (r, s')"
  shows "\<exists>more. s' = s0 @ evs @ more
     \<and> (\<forall>x\<in>set more. \<forall>f. eventField x = Some f \<longrightarrow> i \<le> rank f \<and> rank f < j)
     \<and> stepsInv k d j (evs @ more)
     \<and> (case r of None \<Rightarrow> allApplied (evs @ more) | Some e \<Rightarrow> stoppedAtFailure (evs @ more))"
  using assms
proof (induction n arbitrary: i evs)
  case 0
  then have "i = j" by simp
  with 0 show ?case
    by (intro exI[of _ "[]"]) auto
next
  case (Suc n)
  then have i: "i < 13" "i < j" by simp_all
  let ?ps = "updateSteps E d location k"
  let ?f = "precedence ! i"
  have "drop i ?ps = ?ps ! i # drop (Suc i) ?ps"
    using i by (simp add: Cons_nth_drop_Suc length_updateSteps)
  moreover have "j - i = Suc (j - Suc i)"
    using i by simp
  ultimately have drop: "take (j - i) (drop i ?ps) = ?ps ! i # take (j - Suc i) (drop (Suc i) ?ps)"
    by simp
  obtain r1 s1 where block: "(?ps ! i) (s0 @ evs) = (r1, s1)"
    by force
  from updateSteps_nth[OF i(1) block] obtain evs1 where evs1: "s1 = (s0 @ evs) @ evs1"
    "emitsFor d ?f evs1" "lockRun k evs1 = Free"
    "case r1 of
       None \<Rightarrow> (\<forall>x\<in>set evs1. \<not> failed x)
          \<and> (sentSteps evs1 \<noteq> [] \<longrightarrow> ?f = remove_default_node_pool \<or> SetPartial ?f \<in> set evs1)
     | Some e \<Rightarrow> SetPartial ?f \<notin> set evs1 \<and> (\<forall>y\<in>set (afterFailure evs1). isLockEvent y)"
    unfolding blockOutcome_def by blast
  have rank: "rank ?f = i"
    using i(1) by (rule rank_precedence)
  have inv1: "stepsInv k d (Suc i) (evs @ evs1)"
    using Suc.prems(4) rank evs1(2,3) by (rule stepsInv_step)
  have low1: "\<forall>x\<in>set evs1. \<forall>f. eventField x = Some f \<longrightarrow> i \<le> rank f \<and> rank f < j"
    using evs1(2) rank i(2) unfolding emitsFor_def by force
  show ?case
  proof (cases r1)
    case None
    with evs1(4) have ok: "\<forall>x\<in>set evs1. \<not> failed x"
      "sentSteps evs1 \<noteq> [] \<longrightarrow> ?f = remove_default_node_pool \<or> SetPartial ?f \<in> set evs1"
      by simp_all
    have app1: "allApplied (evs @ evs1)"
      using Suc.prems(5) evs1(2) ok by (rule allApplied_step)
    from Suc.prems(6) drop block None evs1(1)
    have rest: "seq (take (j - Suc i) (drop (Suc i) ?ps)) (s0 @ evs @ evs1) = (r, s')"
      by simp
    have "n = j - Suc i" "Suc i \<le> j"
      using Suc.prems(1) i by simp_all
    from Suc.IH[OF this Suc.prems(3) inv1 app1 rest] obtain more where more:
      "s' = s0 @ (evs @ evs1) @ more"
      "\<forall>x\<in>set more. \<forall>f. eventField x = Some f \<longrightarrow> Suc i \<le> rank f \<and> rank f < j"
      "stepsInv k d j ((evs @ evs1) @ more)"
      "case r of None \<Rightarrow> allApplied ((evs @ evs1) @ more)
         | Some e \<Rightarrow> stoppedAtFailure ((evs @ evs1) @ more)"
      by blast
    show ?thesis
    proof (intro exI[of _ "evs1 @ more"] conjI)
      show "s' = s0 @ evs @ evs1 @ more"
        using more(1) by simp
      show "\<forall>x\<in>set (evs1 @ more). \<forall>f. eventField x = Some f \<longrightarrow> i \<le> rank f \<and> rank f < j"
        using low1 more(2) by fastforce
      show "stepsInv k d j (evs @ evs1 @ more)"
        using more(3) by simp
      show "case r of None \<Rightarrow> allApplied (evs @ evs1 @ more)
         | Some e \<Rightarrow> stoppedAtFailure (evs @ evs1 @ more)"
        using more(4) unfolding append_assoc .
    qed
  next
    case (Some e)
    with evs1(4) have bad: "SetPartial ?f \<notin> set evs1"
      "\<forall>y\<in>set (afterFailure evs1). isLockEvent y"
      by simp_all
    from Suc.prems(6) drop block Some evs1(1) have res: "r = Some e" "s' = s0 @ evs @ evs1"
      by simp_all
    have "stoppedAtFailure (evs @ evs1)"
      using Suc.prems(5,4) rank evs1(2) bad by (rule stopped_step)
    moreover have "stepsInv k d j (evs @ evs1)"
      using i by (intro stepsInv_mono[OF inv1]) simp
    ultimately show ?thesis
      using res low1 by (intro exI[of _ evs1]) simp
  qed
qed

lemma steps_from:
  assumes "i \<le> 13" and "stepsInv k d i evs" and "allApplied evs"
    and "seq (drop i (updateSteps E d location k)) (s0 @ evs) = (r, s')"
  shows "\<exists>more. s' = s0 @ evs @ more
     \<and> (\<forall>x\<in>set more. \<forall>f. eventField x = Some f \<longrightarrow> i \<le> rank f \<and> rank f < 13)
     \<and> stepsInv k d 13 (evs @ more)
     \<and> (case r of None \<Rightarrow> allApplied (evs @ more) | Some e \<Rightarrow> stoppedAtFailure (evs @ more))"
proof -
  have "take (13 - i) (drop i (updateSteps E d location k)) = drop i (updateSteps E d location k)"
    by (simp add: length_updateSteps)
  with assms(4)
  have "seq (take (13 - i) (drop i (updateSteps E d location k))) (s0 @ evs) = (r, s')"
    by simp
  from steps_between[OF refl assms(1) order_refl assms(2,3) this] show ?thesis .
qed

section \<open>Whole runs of Update\<close>

lemmas update_defs = resourceContainerClusterUpdate_def updateSteps_def
  update_master_authorized_networks_config_def update_min_master_version_def
  update_node_version_def update_addons_config_def update_maintenance_policy_def
  update_additional_zones_def update_enable_legacy_abac_def update_monitoring_service_def
  update_network_policy_def update_node_pool_def update_logging_service_def
  update_pod_security_policy_config_def update_remove_default_node_pool_def
  lockedCall_def lockDeferUnlock_def updateFunc_def call_def wait_def emit_def
  removeDefaultNodePool_def resourceContainerClusterRead_def nodePoolRound_def Let_def
  containerClusterMutexKey_def

lemmas reading_defs = sentSteps_def requestFields_def requestsOf_def List.map_filter_def
  lockEvents_def heldThroughout_def firstFailure_def afterFailure_def fieldEvents_def
  lockRun_def


lemma upgrade_failing_run:
  "resourceContainerClusterUpdate nodeUpgradeFails upgradeScenario [] =
     (Some (ApiError ''failed''),
      [Partial True,
       Lock clusterKey,
       Call (updating min_master_version)
         (UpdateClusterRequest (ClusterUpdate\<lparr>DesiredMasterVersion := ''1.2''\<rparr>)) None,
       Wait (updating min_master_version) None, Unlock clusterKey,
       SetPartial min_master_version,
       Lock clusterKey,
       Call (updating node_version)
         (UpdateClusterRequest (ClusterUpdate\<lparr>DesiredNodeVersion := ''1.2''\<rparr>)) None,
       Wait (updating node_version) (Some (ApiError ''failed'')), Unlock clusterKey])"
  by (simp add: update_defs upgradeScenario_def nodeUpgradeFails_def quietEnv_def steadyCluster_def
      clusterKey_def)

lemma zone_sets_differ: "{''z-1-a'', ''z-1-c'', ''z-1-b''} \<noteq> {''z-1-a'', ''z-1-c''}"
proof
  assume "{''z-1-a'', ''z-1-c'', ''z-1-b''} = {''z-1-a'', ''z-1-c''}"
  then have "''z-1-b'' \<in> {''z-1-a'', ''z-1-c''}"
    by (rule subst) (rule insertI2, rule insertI2, rule insertI1)
  then show False
    by simp
qed

lemma zones_run:
  "resourceContainerClusterUpdate quietEnv zonesMoved [] =
     (None,
      [Partial True,
       Lock clusterKey,
       Call (updating additional_zones)
         (UpdateClusterRequest (ClusterUpdate\<lparr>DesiredLocations := {''z-1-a'', ''z-1-c'', ''z-1-b''}\<rparr>))
         None,
       Wait (updating additional_zones) None, Unlock clusterKey,
       Lock clusterKey,
       Call (updating additional_zones)
         (UpdateClusterRequest (ClusterUpdate\<lparr>DesiredLocations := {''z-1-a'', ''z-1-c''}\<rparr>)) None,
       Wait (updating additional_zones) None, Unlock clusterKey,
       SetPartial additional_zones,
       Partial False, Get ReadDone])"
  apply (simp add: update_defs zonesMoved_def quietEnv_def steadyCluster_def clusterKey_def)
  apply (rule zone_sets_differ)
  done

lemma closing_quiet:
  assumes "closingEvent x"
  shows "sentStep x = None" "requestField x = None" "eventField x = None" "\<not> failed x"
    "singleGroup x" "lockStep k Free x = Free" "\<not> isLockEvent x" "x \<noteq> SetPartial g"
  using assms by (cases x; simp)+

lemma closing_tail:
  assumes "\<forall>x\<in>set tail. closingEvent x"
  shows "sentSteps tail = []" "requestFields tail = []" "lockRun k tail = Free"
    "List.find failed tail = None" "SetPartial g \<notin> set tail" "\<forall>x\<in>set tail. singleGroup x"
    "fieldEvents f tail = []"
proof -
  show "sentSteps tail = []"
    using assms by (auto simp: sentSteps_def List.map_filter_def filter_empty_conv closing_quiet)
  show "requestFields tail = []"
    using assms by (auto simp: requestFields_def List.map_filter_def filter_empty_conv closing_quiet)
  show "lockRun k tail = Free"
    using assms by (intro neutral_lockRun) (simp add: closing_quiet)
  show "List.find failed tail = None"
    using assms by (auto simp: find_None_iff closing_quiet)
  show "SetPartial g \<notin> set tail"
    using assms closing_quiet(8) by blast
  show "\<forall>x\<in>set tail. singleGroup x"
    using assms by (simp add: closing_quiet)
  show "fieldEvents f tail = []"
    using assms by (auto simp: fieldEvents_def filter_empty_conv closing_quiet)
qed

lemma read_closing:
  assumes "resourceContainerClusterRead E d s = (r, s')"
  shows "\<exists>tail. s' = s @ tail \<and> (\<forall>x\<in>set tail. closingEvent x)"
  using assms
  by (auto simp: resourceContainerClusterRead_def split: sum.splits read_outcome.splits)

lemma update_run:
  assumes run: "resourceContainerClusterUpdate E d [] = (r, tr)"
    and project: "getProject d = Inr project" and location: "getLocation d = Inr location"
  shows "\<exists>evs tail. tr = Partial True # evs @ tail \<and> (\<forall>x\<in>set tail. closingEvent x)
     \<and> stepsInv (containerClusterMutexKey project location (d_name d)) d 13 evs
     \<and> (allApplied evs \<or> (r \<noteq> None \<and> tail = [] \<and> stoppedAtFailure evs))"
proof -
  let ?k = "containerClusterMutexKey project location (d_name d)"
  let ?ps = "updateSteps E d location ?k"
  obtain rs s1 where steps: "seq ?ps [Partial True] = (rs, s1)"
    by force
  have "stepsInv ?k d 0 []" "allApplied []"
    by (simp_all add: stepsInv_def allApplied_def sentSteps_def requestFields_def lockRun_def
        List.map_filter_def)
  moreover from steps have "seq (drop 0 ?ps) ([Partial True] @ []) = (rs, s1)"
    by simp
  ultimately obtain more where more: "s1 = [Partial True] @ [] @ more"
    "stepsInv ?k d 13 ([] @ more)"
    "case rs of None \<Rightarrow> allApplied ([] @ more) | Some e \<Rightarrow> stoppedAtFailure ([] @ more)"
    using steps_from[of 0 ?k d "[]" E location "[Partial True]" rs s1] by auto
  show ?thesis
  proof (cases rs)
    case (Some e)
    with run project location steps have "r = Some e" "tr = s1"
      by (simp_all add: resourceContainerClusterUpdate_def emit_def)
    with more Some show ?thesis
      by (intro exI[of _ more] exI[of _ "[]"]) simp
  next
    case None
    with run project location steps
    have "resourceContainerClusterRead E d (s1 @ [Partial False]) = (r, tr)"
      by (simp add: resourceContainerClusterUpdate_def emit_def split: prod.splits option.splits)
    from read_closing[OF this] obtain tail where "tr = (s1 @ [Partial False]) @ tail"
      "\<forall>x\<in>set tail. closingEvent x"
      by blast
    with more None show ?thesis
      by (intro exI[of _ more] exI[of _ "Partial False # tail"]) simp
  qed
qed

lemma update_unresolved:
  assumes "resourceContainerClusterUpdate E d [] = (r, tr)"
    and "isl (getProject d) \<or> isl (getLocation d)"
  shows "tr = []"
  using assms
  by (auto simp: resourceContainerClusterUpdate_def split: sum.splits)

section \<open>Properties of Update\<close>








lemma update_failure:
  assumes run: "resourceContainerClusterUpdate E d [] = (r, tr)"
    and first: "firstFailure tr = Some x"
  shows "r \<noteq> None \<and> (\<forall>y\<in>set (afterFailure tr). isLockEvent y)
     \<and> (\<exists>f. eventField x = Some f \<and> SetPartial f \<notin> set tr
           \<and> (\<forall>g\<in>set (sentSteps tr). g \<noteq> f \<longrightarrow> SetPartial g \<in> set tr))"
proof (cases "isl (getProject d) \<or> isl (getLocation d)")
  case True
  with run have "tr = []" by (rule update_unresolved)
  with first show ?thesis by (simp add: firstFailure_def)
next
  case False
  then obtain project location where "getProject d = Inr project" "getLocation d = Inr location"
    by (metis sum.collapse(2))
  from update_run[OF run this] obtain evs tail where tr: "tr = Partial True # evs @ tail"
    and tail: "\<forall>x\<in>set tail. closingEvent x"
    and cases: "allApplied evs \<or> (r \<noteq> None \<and> tail = [] \<and> stoppedAtFailure evs)"
    by blast
  have "\<not> allApplied evs"
  proof
    assume "allApplied evs"
    then have "\<forall>x\<in>set evs. \<not> failed x"
      unfolding allApplied_def by blast
    with tail have "\<forall>x\<in>set tr. \<not> failed x"
      unfolding tr by (auto simp: closing_quiet)
    then have "firstFailure tr = None"
      by (simp add: firstFailure_def find_None_iff)
    with first show False by simp
  qed
  with cases have r: "r \<noteq> None" and "tail = []" and stopped: "stoppedAtFailure evs"
    by blast+
  then have tr': "tr = Partial True # evs"
    using tr by simp
  then have same: "firstFailure tr = firstFailure evs" "afterFailure tr = afterFailure evs"
    "sentSteps tr = sentSteps evs" "\<And>g. (SetPartial g \<in> set tr) = (SetPartial g \<in> set evs)"
    by (auto simp: firstFailure_def afterFailure_def sentSteps_def List.map_filter_def)
  from stopped first show ?thesis
    unfolding stoppedAtFailure_def same using r by blast
qed

text \<open>
  C3. When a step of an update fails (its request is rejected, the wait for its operation
  fails, or the update of a node pool fails), the update returns an error; after the
  failed event only the release of the lock follows, so no later step is issued and no
  earlier one is undone; the schema key of the failed step is not recorded with
  \<open>SetPartial\<close>, and the schema key of every other step that was issued is.
\<close>

theorem update_stops_at_failed_step:
  assumes "resourceContainerClusterUpdate E d [] = (r, tr)" and "firstFailure tr = Some x"
  shows "r \<noteq> None \<and> (\<forall>y\<in>set (afterFailure tr). isLockEvent y)
     \<and> (\<exists>f. eventField x = Some f \<and> SetPartial f \<notin> set tr
           \<and> (\<forall>g\<in>set (sentSteps tr). g \<noteq> f \<longrightarrow> SetPartial g \<in> set tr))"
  using assms by (rule update_failure)

theorem update_stops_at_failed_step_witness:
  "firstFailure (snd (resourceContainerClusterUpdate nodeUpgradeFails upgradeScenario []))
     = Some (Wait (updating node_version) (Some (ApiError ''failed'')))
   \<and> fst (resourceContainerClusterUpdate nodeUpgradeFails upgradeScenario []) \<noteq> None
   \<and> afterFailure (snd (resourceContainerClusterUpdate nodeUpgradeFails upgradeScenario []))
       = [Unlock clusterKey]
   \<and> SetPartial node_version
       \<notin> set (snd (resourceContainerClusterUpdate nodeUpgradeFails upgradeScenario []))
   \<and> SetPartial min_master_version
       \<in> set (snd (resourceContainerClusterUpdate nodeUpgradeFails upgradeScenario []))"
proof -
  let ?run = "resourceContainerClusterUpdate nodeUpgradeFails upgradeScenario []"
  have run: "?run = (fst ?run, snd ?run)"
    by simp
  have first: "firstFailure (snd ?run) = Some (Wait (updating node_version) (Some (ApiError ''failed'')))"
    by (simp add: upgrade_failing_run firstFailure_def)
  have sent: "min_master_version \<in> set (sentSteps (snd ?run))"
    by (simp add: upgrade_failing_run sentSteps_def List.map_filter_def)
  have after: "afterFailure (snd ?run) = [Unlock clusterKey]"
    by (simp add: upgrade_failing_run afterFailure_def)
  from update_stops_at_failed_step[OF run first] sent
  have "fst ?run \<noteq> None" "SetPartial node_version \<notin> set (snd ?run)"
    "SetPartial min_master_version \<in> set (snd ?run)"
    by auto
  with first after show ?thesis
    by simp
qed




section \<open>One block within a run of Update\<close>

lemma seq_append:
  "seq (ps @ qs) s = (case seq ps s of (Some e, s') \<Rightarrow> (Some e, s') | (None, s') \<Rightarrow> seq qs s')"
  by (induction ps arbitrary: s) (auto split: prod.splits option.splits)

lemma seq_single: "seq [p] s = p s"
  by (cases "p s") (auto split: option.splits)

lemma fieldEvents_append: "fieldEvents f (a @ b) = fieldEvents f a @ fieldEvents f b"
  by (simp add: fieldEvents_def)

lemma fieldEvents_none:
  assumes "\<forall>x\<in>set evs. \<forall>g. eventField x = Some g \<longrightarrow> g \<noteq> f"
  shows "fieldEvents f evs = []"
  using assms by (auto simp: fieldEvents_def filter_empty_conv)

lemma update_block:
  assumes run: "resourceContainerClusterUpdate E d [] = (r, tr)"
    and project: "getProject d = Inr project" and location: "getLocation d = Inr location"
    and j: "j < 13"
  shows "\<exists>r0 before.
     seq (take j (updateSteps E d location (containerClusterMutexKey project location (d_name d))))
       [Partial True] = (r0, Partial True # before)
     \<and> fieldEvents (precedence ! j) before = []
     \<and> (case r0 of
           Some e \<Rightarrow> r = Some e \<and> tr = Partial True # before
         | None \<Rightarrow> (\<exists>rj mid rest.
             (updateSteps E d location (containerClusterMutexKey project location (d_name d)) ! j)
                (Partial True # before) = (rj, Partial True # before @ mid)
             \<and> tr = Partial True # before @ mid @ rest
             \<and> fieldEvents (precedence ! j) rest = []
             \<and> (rj \<noteq> None \<longrightarrow> r = rj \<and> rest = [])))"
proof -
  let ?k = "containerClusterMutexKey project location (d_name d)"
  let ?ps = "updateSteps E d location ?k"
  let ?f = "precedence ! j"
  have rank: "rank ?f = j"
    using j by (rule rank_precedence)
  have empty: "stepsInv ?k d i []" "allApplied []" for i
    by (simp_all add: stepsInv_def allApplied_def sentSteps_def requestFields_def lockRun_def
        List.map_filter_def)
  have split: "?ps = take j ?ps @ ?ps ! j # drop (Suc j) ?ps"
    using j by (simp add: id_take_nth_drop length_updateSteps)
  obtain r0 s0 where pre: "seq (take j ?ps) [Partial True] = (r0, s0)"
    by force
  then have "seq (take (j - 0) (drop 0 ?ps)) ([Partial True] @ []) = (r0, s0)"
    by simp
  from steps_between[OF refl _ _ empty this] j obtain before where before:
    "s0 = Partial True # before"
    "\<forall>x\<in>set before. \<forall>g. eventField x = Some g \<longrightarrow> rank g < j"
    by auto
  have none_before: "fieldEvents ?f before = []"
    using before(2) rank by (intro fieldEvents_none) auto
  have whole: "seq ?ps [Partial True] =
      (case r0 of Some e \<Rightarrow> (Some e, s0) | None \<Rightarrow> seq (?ps ! j # drop (Suc j) ?ps) s0)"
    by (subst split, subst seq_append) (simp add: pre split: option.splits)
  have upd: "(r, tr) = (case seq ?ps [Partial True] of
        (Some e, s1) \<Rightarrow> (Some e, s1)
      | (None, s1) \<Rightarrow> resourceContainerClusterRead E d (s1 @ [Partial False]))"
    using run project location
    by (auto simp: resourceContainerClusterUpdate_def emit_def split: prod.splits option.splits)
  show ?thesis
  proof (cases r0)
    case (Some e)
    with whole upd have "r = Some e" "tr = s0"
      by simp_all
    with Some pre before(1) none_before show ?thesis
      by (intro exI[of _ r0] exI[of _ before]) simp
  next
    case None
    obtain rj sj where block: "(?ps ! j) s0 = (rj, sj)"
      by force
    from updateSteps_nth[OF j block] obtain mid where mid: "sj = s0 @ mid"
      unfolding blockOutcome_def by blast
    have "\<exists>rest. tr = Partial True # before @ mid @ rest \<and> fieldEvents ?f rest = []
        \<and> (rj \<noteq> None \<longrightarrow> r = rj \<and> rest = [])"
    proof (cases rj)
      case (Some e)
      with whole None block upd have "r = Some e" "tr = sj"
        by simp_all
      with Some mid before(1) show ?thesis
        by (intro exI[of _ "[]"]) (simp add: fieldEvents_def)
    next
      case rjNone: None
      obtain r2 s2 where later: "seq (drop (Suc j) ?ps) sj = (r2, s2)"
        by force
      then have "seq (drop (Suc j) ?ps) (sj @ []) = (r2, s2)"
        by simp
      from steps_from[OF _ empty this] j obtain more where more: "s2 = sj @ more"
        "\<forall>x\<in>set more. \<forall>g. eventField x = Some g \<longrightarrow> Suc j \<le> rank g"
        by auto
      have none_more: "fieldEvents ?f more = []"
        using more(2) rank by (intro fieldEvents_none) auto
      from whole None block rjNone later have steps: "seq ?ps [Partial True] = (r2, s2)"
        by simp
      show ?thesis
      proof (cases r2)
        case (Some e)
        with steps upd have "tr = s2"
          by simp
        with more(1) mid before(1) none_more rjNone show ?thesis
          by (intro exI[of _ more]) simp
      next
        case r2None: None
        with steps upd have "resourceContainerClusterRead E d (s2 @ [Partial False]) = (r, tr)"
          by simp
        from read_closing[OF this] obtain tail where tail: "tr = (s2 @ [Partial False]) @ tail"
          "\<forall>x\<in>set tail. closingEvent x"
          by blast
        have "fieldEvents ?f (Partial False # tail) = []"
          using closing_tail(7)[OF tail(2)] by (simp add: fieldEvents_def)
        with none_more have "fieldEvents ?f (more @ Partial False # tail) = []"
          by (simp add: fieldEvents_append)
        with tail(1) more(1) mid before(1) rjNone show ?thesis
          by (intro exI[of _ "more @ Partial False # tail"]) simp
      qed
    qed
    with None pre before(1) none_before block mid show ?thesis
      by (intro exI[of _ r0] exI[of _ before]) auto
  qed
qed


lemma requestOf_field:
  assumes "requestOf f x = Some p"
  shows "eventField x = Some f"
proof (cases x)
  case (Call t req rc)
  with assms show ?thesis
    by (cases t) (auto split: if_splits)
qed (use assms in simp_all)

lemma requestsOf_append: "requestsOf f (a @ b) = requestsOf f a @ requestsOf f b"
  by (simp add: requestsOf_def List.map_filter_def)

lemma requestsOf_none:
  assumes "fieldEvents f evs = []"
  shows "requestsOf f evs = []"
proof -
  have "requestOf f x = None" if "x \<in> set evs" for x
  proof (cases "requestOf f x")
    case (Some p)
    then have "eventField x = Some f" by (rule requestOf_field)
    with that assms show ?thesis
      by (auto simp: fieldEvents_def filter_empty_conv)
  qed simp
  then show ?thesis
    by (simp add: requestsOf_def List.map_filter_def filter_empty_conv)
qed

lemma setPartial_none:
  assumes "fieldEvents f evs = []"
  shows "SetPartial f \<notin> set evs"
  using assms by (auto simp: fieldEvents_def filter_empty_conv)

lemma block_readings:
  assumes "tr = Partial True # before @ mid @ rest"
    and "fieldEvents f before = []" and "fieldEvents f rest = []"
  shows "requestsOf f tr = requestsOf f mid" "fieldEvents f tr = fieldEvents f mid"
    "(SetPartial f \<in> set tr) = (SetPartial f \<in> set mid)"
proof -
  have tr: "tr = [Partial True] @ before @ mid @ rest"
    using assms(1) by simp
  show "requestsOf f tr = requestsOf f mid"
    unfolding tr requestsOf_append
    using requestsOf_none[OF assms(2)] requestsOf_none[OF assms(3)]
    by (simp add: requestsOf_def List.map_filter_def)
  show "fieldEvents f tr = fieldEvents f mid"
    unfolding tr fieldEvents_append using assms(2,3)
    by (simp add: fieldEvents_def)
  show "(SetPartial f \<in> set tr) = (SetPartial f \<in> set mid)"
    unfolding tr using setPartial_none[OF assms(2)] setPartial_none[OF assms(3)]
    by auto
qed

lemma min_master_version_events:
  assumes block: "update_min_master_version E d k s = (r, s @ mid)"
    and changed: "HasChange d min_master_version"
  shows "(\<forall>p\<in>set (requestsOf min_master_version mid). fst p = masterVersionRequest d
           \<and> (\<exists>vd vc. NewVersion E (d_min_master_version d) = Inr vd
                 \<and> NewVersion E (d_master_version d) = Inr vc \<and> LessThan E vc vd))
     \<and> (\<forall>vd vc. NewVersion E (d_min_master_version d) = Inr vd
           \<and> NewVersion E (d_master_version d) = Inr vc \<and> \<not> LessThan E vc vd
         \<longrightarrow> r = None \<and> mid = [SetPartial min_master_version])
     \<and> (\<forall>e. NewVersion E (d_min_master_version d) = Inl e
             \<or> (\<not> isl (NewVersion E (d_min_master_version d))
                 \<and> NewVersion E (d_master_version d) = Inl e)
         \<longrightarrow> r = Some e \<and> mid = [])"
proof (cases "NewVersion E (d_min_master_version d)")
  case (Inl e)
  with block changed have "r = Some e" "mid = []"
    by (simp_all add: update_min_master_version_def)
  with Inl show ?thesis
    by (simp add: requestsOf_def List.map_filter_def)
next
  case des: (Inr vd)
  show ?thesis
  proof (cases "NewVersion E (d_master_version d)")
    case (Inl e)
    with block changed des have "r = Some e" "mid = []"
      by (simp_all add: update_min_master_version_def)
    with Inl des show ?thesis
      by (simp add: requestsOf_def List.map_filter_def)
  next
    case cur: (Inr vc)
    show ?thesis
    proof (cases "LessThan E vc vd")
      case False
      with block changed des cur have "r = None" "mid = [SetPartial min_master_version]"
        by (simp_all add: update_min_master_version_def seq_skip_emit del: seq.simps)
      with des cur False show ?thesis
        by (simp add: requestsOf_def List.map_filter_def)
    next
      case True
      let ?t = "updating min_master_version"
      from block changed des cur True
      have "seq [lockedCall k (updateFunc E (containerAPIVersion d) ?t (masterVersionRequest d)),
                 emit (SetPartial min_master_version)] s = (r, s @ mid)"
        by (simp add: update_min_master_version_def masterVersionRequest_def del: seq.simps)
      from lockedStep[OF this]
      consider "mid = [Lock k, Call ?t (masterVersionRequest d) None, Wait ?t None, Unlock k,
                       SetPartial min_master_version]"
        | "mid = [Lock k, Unlock k]"
        | e where "mid = [Lock k, Call ?t (masterVersionRequest d) (Some e), Unlock k]"
        | e where "mid = [Lock k, Call ?t (masterVersionRequest d) None, Wait ?t (Some e),
                          Unlock k]"
        by auto
      then show ?thesis
        using des cur True
        by cases (simp_all add: requestsOf_def List.map_filter_def)
    qed
  qed
qed

text \<open>
  C9. In an update in which \<open>min_master_version\<close> changed, a request for the master
  version is sent only when both version strings parse and the current master version is
  strictly lower than the desired one, and it carries the desired version. Once the block is
  reached (the block before it returned no error): when both versions parse and the
  current one is not lower, nothing is sent for the master version and the key is still
  recorded with \<open>SetPartial\<close>; when the desired version, or else the current version,
  fails to parse, the update returns that error and has sent and recorded nothing for the
  master version.
\<close>

theorem master_version_step:
  assumes run: "resourceContainerClusterUpdate E d [] = (r, tr)"
    and changed: "HasChange d min_master_version"
    and project: "getProject d = Inr project" and location: "getLocation d = Inr location"
  shows "(\<forall>p\<in>set (requestsOf min_master_version tr). fst p = masterVersionRequest d
           \<and> (\<exists>vd vc. NewVersion E (d_min_master_version d) = Inr vd
                 \<and> NewVersion E (d_master_version d) = Inr vc \<and> LessThan E vc vd))
     \<and> (reachesMasterVersion E d (containerClusterMutexKey project location (d_name d)) \<longrightarrow>
          (\<forall>vd vc. NewVersion E (d_min_master_version d) = Inr vd
              \<and> NewVersion E (d_master_version d) = Inr vc \<and> \<not> LessThan E vc vd
            \<longrightarrow> fieldEvents min_master_version tr = [SetPartial min_master_version])
        \<and> (\<forall>e. NewVersion E (d_min_master_version d) = Inl e
                \<or> (\<not> isl (NewVersion E (d_min_master_version d))
                    \<and> NewVersion E (d_master_version d) = Inl e)
            \<longrightarrow> r = Some e \<and> fieldEvents min_master_version tr = []))"
proof -
  let ?k = "containerClusterMutexKey project location (d_name d)"
  let ?ps = "updateSteps E d location ?k"
  have one: "(1::nat) < 13" by simp
  have f: "precedence ! 1 = min_master_version"
    and b0: "take 1 ?ps = [update_master_authorized_networks_config E d ?k]"
    and b1: "?ps ! 1 = update_min_master_version E d ?k"
    by (simp_all add: precedence_def updateSteps_def)
  from update_block[OF run project location one] obtain r0 before where
    pre: "update_master_authorized_networks_config E d ?k [Partial True] = (r0, Partial True # before)"
    and before: "fieldEvents min_master_version before = []"
    and cases: "case r0 of
         Some e \<Rightarrow> r = Some e \<and> tr = Partial True # before
       | None \<Rightarrow> (\<exists>rj mid rest.
           update_min_master_version E d ?k (Partial True # before)
              = (rj, Partial True # before @ mid)
           \<and> tr = Partial True # before @ mid @ rest
           \<and> fieldEvents min_master_version rest = []
           \<and> (rj \<noteq> None \<longrightarrow> r = rj \<and> rest = []))"
    unfolding f b0 b1 seq_single by blast
  show ?thesis
  proof (cases r0)
    case (Some e)
    with cases have "tr = [Partial True] @ before @ [] @ []"
      by simp
    then have "requestsOf min_master_version tr = []"
      using block_readings(1)[of tr before "[]" "[]" min_master_version] before
      by (simp add: requestsOf_def fieldEvents_def List.map_filter_def)
    moreover have "\<not> reachesMasterVersion E d ?k"
      using pre Some by (simp add: reachesMasterVersion_def)
    ultimately show ?thesis
      by simp
  next
    case None
    with cases obtain rj mid rest where
      block: "update_min_master_version E d ?k (Partial True # before)
          = (rj, Partial True # before @ mid)"
      and tr: "tr = Partial True # before @ mid @ rest"
      and rest: "fieldEvents min_master_version rest = []"
      and stop: "rj \<noteq> None \<longrightarrow> r = rj \<and> rest = []"
      by auto
    from block have "update_min_master_version E d ?k (Partial True # before)
        = (rj, (Partial True # before) @ mid)"
      by simp
    from min_master_version_events[OF this changed]
    have reqs: "\<forall>p\<in>set (requestsOf min_master_version mid). fst p = masterVersionRequest d
           \<and> (\<exists>vd vc. NewVersion E (d_min_master_version d) = Inr vd
                 \<and> NewVersion E (d_master_version d) = Inr vc \<and> LessThan E vc vd)"
      and upToDate: "\<forall>vd vc. NewVersion E (d_min_master_version d) = Inr vd
           \<and> NewVersion E (d_master_version d) = Inr vc \<and> \<not> LessThan E vc vd
         \<longrightarrow> rj = None \<and> mid = [SetPartial min_master_version]"
      and unparsed: "\<forall>e. NewVersion E (d_min_master_version d) = Inl e
             \<or> (\<not> isl (NewVersion E (d_min_master_version d))
                 \<and> NewVersion E (d_master_version d) = Inl e)
         \<longrightarrow> rj = Some e \<and> mid = []"
      by blast+
    note readings = block_readings[OF tr before rest]
    have 1: "\<forall>p\<in>set (requestsOf min_master_version tr). fst p = masterVersionRequest d
           \<and> (\<exists>vd vc. NewVersion E (d_min_master_version d) = Inr vd
                 \<and> NewVersion E (d_master_version d) = Inr vc \<and> LessThan E vc vd)"
      using reqs unfolding readings(1) .
    have 2: "fieldEvents min_master_version tr = [SetPartial min_master_version]"
      if "NewVersion E (d_min_master_version d) = Inr vd"
        "NewVersion E (d_master_version d) = Inr vc" "\<not> LessThan E vc vd" for vd vc
      using upToDate that unfolding readings(2) by (simp add: fieldEvents_def)
    have 3: "r = Some e \<and> fieldEvents min_master_version tr = []"
      if "NewVersion E (d_min_master_version d) = Inl e
             \<or> (\<not> isl (NewVersion E (d_min_master_version d))
                 \<and> NewVersion E (d_master_version d) = Inl e)" for e
    proof -
      from unparsed that have "rj = Some e" "mid = []"
        by blast+
      with stop show ?thesis
        unfolding readings(2) by (simp add: fieldEvents_def)
    qed
    from 1 2 3 show ?thesis
      by blast
  qed
qed


theorem master_version_step_witness:
  "HasChange masterUpToDate min_master_version
   \<and> reachesMasterVersion quietEnv masterUpToDate clusterKey
   \<and> NewVersion quietEnv (d_min_master_version masterUpToDate) = Inr 11
   \<and> NewVersion quietEnv (d_master_version masterUpToDate) = Inr 11
   \<and> \<not> LessThan quietEnv 11 11
   \<and> fieldEvents min_master_version
        (snd (resourceContainerClusterUpdate quietEnv masterUpToDate []))
       = [SetPartial min_master_version]"
proof -
  let ?run = "resourceContainerClusterUpdate quietEnv masterUpToDate []"
  have run: "?run = (fst ?run, snd ?run)"
    by simp
  have changed: "HasChange masterUpToDate min_master_version"
    and project: "getProject masterUpToDate = Inr ''p''"
    and location: "getLocation masterUpToDate = Inr ''z-1-a''"
    and name: "d_name masterUpToDate = ''c''"
    by (simp_all add: masterUpToDate_def steadyCluster_def)
  have key: "containerClusterMutexKey ''p'' ''z-1-a'' ''c'' = clusterKey"
    by (simp add: containerClusterMutexKey_def clusterKey_def)
  have reached: "reachesMasterVersion quietEnv masterUpToDate clusterKey"
    by (simp add: reachesMasterVersion_def update_master_authorized_networks_config_def
        masterUpToDate_def steadyCluster_def)
  have versions: "NewVersion quietEnv (d_min_master_version masterUpToDate) = Inr 11"
    "NewVersion quietEnv (d_master_version masterUpToDate) = Inr 11"
    "\<not> LessThan quietEnv 11 11"
    by (simp_all add: masterUpToDate_def steadyCluster_def quietEnv_def)
  from master_version_step[OF run changed project location] reached versions
  have "fieldEvents min_master_version (snd ?run) = [SetPartial min_master_version]"
    unfolding name key by blast
  with changed reached versions show ?thesis
    by simp
qed

lemma additional_zones_events:
  assumes block: "update_additional_zones E d location k s = (r, s @ mid)"
  shows "(map fst (requestsOf additional_zones mid) = []
        \<or> map fst (requestsOf additional_zones mid) = [locationsRequest (azSet E d location)]
        \<or> (map fst (requestsOf additional_zones mid)
             = [locationsRequest (azSet E d location), locationsRequest (azSetNew E d location)]
            \<and> azSet E d location \<noteq> azSetNew E d location))
     \<and> (SetPartial additional_zones \<in> set mid \<longrightarrow>
          map fst (requestsOf additional_zones mid)
            = (if azSet E d location = azSetNew E d location
               then [locationsRequest (azSet E d location)]
               else [locationsRequest (azSet E d location),
                     locationsRequest (azSetNew E d location)]))"
proof (cases "HasChange d additional_zones \<and> location \<notin> d_additional_zones d")
  case False
  with block have "mid = []"
    by (auto simp: update_additional_zones_def Let_def split: if_splits)
  then show ?thesis
    by (simp add: requestsOf_def List.map_filter_def)
next
  case True
  let ?t = "updating additional_zones"
  let ?U = "locationsRequest (azSet E d location)"
  let ?N = "locationsRequest (azSetNew E d location)"
  have inj: "(?U = ?N) = (azSet E d location = azSetNew E d location)"
    by (simp add: locationsRequest_def ClusterUpdate_def)
  obtain r1 s1 where first: "lockedCall k (updateFunc E (containerAPIVersion d) ?t ?U) s = (r1, s1)"
    by force
  from lockedCall_updateFunc[OF first]
  consider (ok) "r1 = None" "s1 = s @ [Lock k, Call ?t ?U None, Wait ?t None, Unlock k]"
    | (bad) e where "r1 = Some e" "s1 = s @ [Lock k, Unlock k] \<or> s1 = s @ [Lock k, Call ?t ?U (Some e), Unlock k]
          \<or> s1 = s @ [Lock k, Call ?t ?U None, Wait ?t (Some e), Unlock k]"
    by blast
  then show ?thesis
  proof cases
    case bad
    with block True first have "s @ mid = s1"
      by (simp add: update_additional_zones_def Let_def azSet_def locationsRequest_def)
    with bad(2) have "mid = [Lock k, Unlock k] \<or> mid = [Lock k, Call ?t ?U (Some e), Unlock k]
          \<or> mid = [Lock k, Call ?t ?U None, Wait ?t (Some e), Unlock k]"
      by auto
    then show ?thesis
      by (auto simp: requestsOf_def List.map_filter_def)
  next
    case ok
    show ?thesis
    proof (cases "azSet E d location = azSetNew E d location")
      case same: True
      with block True first ok have "s @ mid = s1 @ [SetPartial additional_zones]"
        by (simp add: update_additional_zones_def Let_def azSet_def azSetNew_def
            locationsRequest_def seq_skip_emit del: seq.simps)
      with ok(2) have "mid = [Lock k, Call ?t ?U None, Wait ?t None, Unlock k,
          SetPartial additional_zones]"
        by simp
      with same show ?thesis
        by (simp add: requestsOf_def List.map_filter_def)
    next
      case False
      with block True first ok
      have "seq [lockedCall k (updateFunc E (containerAPIVersion d) ?t ?N),
                 emit (SetPartial additional_zones)] s1 = (r, s @ mid)"
        by (simp add: update_additional_zones_def Let_def azSet_def azSetNew_def
            locationsRequest_def del: seq.simps)
      from lockedStep[OF this] ok(2)
      consider "mid = [Lock k, Call ?t ?U None, Wait ?t None, Unlock k,
                       Lock k, Call ?t ?N None, Wait ?t None, Unlock k, SetPartial additional_zones]"
        | "mid = [Lock k, Call ?t ?U None, Wait ?t None, Unlock k, Lock k, Unlock k]"
        | e where "mid = [Lock k, Call ?t ?U None, Wait ?t None, Unlock k,
                          Lock k, Call ?t ?N (Some e), Unlock k]"
        | e where "mid = [Lock k, Call ?t ?U None, Wait ?t None, Unlock k,
                          Lock k, Call ?t ?N None, Wait ?t (Some e), Unlock k]"
        by auto
      then show ?thesis
        using False
        by cases (simp_all add: requestsOf_def List.map_filter_def)
    qed
  qed
qed

lemma additional_zones_in_run:
  assumes run: "resourceContainerClusterUpdate E d [] = (r, tr)"
    and project: "getProject d = Inr project" and location: "getLocation d = Inr location"
  shows "(map fst (requestsOf additional_zones tr) = []
        \<or> map fst (requestsOf additional_zones tr) = [locationsRequest (azSet E d location)]
        \<or> (map fst (requestsOf additional_zones tr)
             = [locationsRequest (azSet E d location), locationsRequest (azSetNew E d location)]
            \<and> azSet E d location \<noteq> azSetNew E d location))
     \<and> (SetPartial additional_zones \<in> set tr \<longrightarrow>
          map fst (requestsOf additional_zones tr)
            = (if azSet E d location = azSetNew E d location
               then [locationsRequest (azSet E d location)]
               else [locationsRequest (azSet E d location),
                     locationsRequest (azSetNew E d location)]))"
proof -
  let ?k = "containerClusterMutexKey project location (d_name d)"
  let ?ps = "updateSteps E d location ?k"
  have five: "(5::nat) < 13" by simp
  have f: "precedence ! 5 = additional_zones"
    and b: "?ps ! 5 = update_additional_zones E d location ?k"
    by (simp_all add: precedence_def updateSteps_def)
  from update_block[OF run project location five] obtain r0 before where
    before: "fieldEvents additional_zones before = []"
    and cases: "case r0 of
         Some e \<Rightarrow> r = Some e \<and> tr = Partial True # before
       | None \<Rightarrow> (\<exists>rj mid rest.
           update_additional_zones E d location ?k (Partial True # before)
              = (rj, Partial True # before @ mid)
           \<and> tr = Partial True # before @ mid @ rest
           \<and> fieldEvents additional_zones rest = []
           \<and> (rj \<noteq> None \<longrightarrow> r = rj \<and> rest = []))"
    unfolding f b by blast
  show ?thesis
  proof (cases r0)
    case (Some e)
    with cases have tr: "tr = Partial True # before @ [] @ []"
      by simp
    have "fieldEvents additional_zones [] = []"
      by (simp add: fieldEvents_def)
    from block_readings(1,3)[OF tr before this] show ?thesis
      by (simp add: requestsOf_def List.map_filter_def)
  next
    case None
    with cases obtain rj mid rest where
      block: "update_additional_zones E d location ?k (Partial True # before)
          = (rj, Partial True # before @ mid)"
      and tr: "tr = Partial True # before @ mid @ rest"
      and rest: "fieldEvents additional_zones rest = []"
      by auto
    from block have "update_additional_zones E d location ?k (Partial True # before)
        = (rj, (Partial True # before) @ mid)"
      by simp
    from additional_zones_events[OF this] show ?thesis
      unfolding block_readings(1,3)[OF tr before rest] .
  qed
qed


text \<open>
  C10, amended. In an update in which \<open>additional_zones\<close> changed, the zones are added
  before any is removed: the first request for the locations sends the union of the old and
  the new zones (with the zone of the cluster when its location is a zone), which holds
  every old and every new zone; a second request is sent only when that union differs from
  the new zones taken with the zone of the cluster when the location is a zone, and it
  sends exactly that set; no third request is sent; and the key is recorded with
  \<open>SetPartial\<close> only after every request due has been sent.
\<close>

theorem additional_zones_added_before_removed:
  assumes "resourceContainerClusterUpdate E d [] = (r, tr)"
    and "getProject d = Inr project" and "getLocation d = Inr location"
  shows "(map fst (requestsOf additional_zones tr) = []
        \<or> map fst (requestsOf additional_zones tr) = [locationsRequest (azSet E d location)]
        \<or> (map fst (requestsOf additional_zones tr)
             = [locationsRequest (azSet E d location), locationsRequest (azSetNew E d location)]
            \<and> azSet E d location \<noteq> azSetNew E d location))
     \<and> (SetPartial additional_zones \<in> set tr \<longrightarrow>
          map fst (requestsOf additional_zones tr)
            = (if azSet E d location = azSetNew E d location
               then [locationsRequest (azSet E d location)]
               else [locationsRequest (azSet E d location),
                     locationsRequest (azSetNew E d location)]))
     \<and> d_additional_zones_old d \<union> d_additional_zones d \<subseteq> azSet E d location
     \<and> azSetNew E d location
         = d_additional_zones d \<union> (if isZone E location then {location} else {})"
  using additional_zones_in_run[OF assms]
  by (auto simp: azSet_def azSetNew_def)

theorem additional_zones_added_before_removed_witness:
  "map fst (requestsOf additional_zones
       (snd (resourceContainerClusterUpdate quietEnv zonesMoved [])))
     = [locationsRequest (azSet quietEnv zonesMoved ''z-1-a''),
        locationsRequest (azSetNew quietEnv zonesMoved ''z-1-a'')]
   \<and> azSet quietEnv zonesMoved ''z-1-a'' = {''z-1-a'', ''z-1-c'', ''z-1-b''}
   \<and> azSetNew quietEnv zonesMoved ''z-1-a'' = {''z-1-a'', ''z-1-c''}"
proof -
  let ?run = "resourceContainerClusterUpdate quietEnv zonesMoved []"
  have run: "?run = (fst ?run, snd ?run)"
    by simp
  have project: "getProject zonesMoved = Inr ''p''"
    and location: "getLocation zonesMoved = Inr ''z-1-a''"
    by (simp_all add: zonesMoved_def steadyCluster_def)
  have union: "azSet quietEnv zonesMoved ''z-1-a'' = {''z-1-a'', ''z-1-c'', ''z-1-b''}"
    and new: "azSetNew quietEnv zonesMoved ''z-1-a'' = {''z-1-a'', ''z-1-c''}"
    by (simp_all add: azSet_def azSetNew_def zonesMoved_def steadyCluster_def quietEnv_def)
  have recorded: "SetPartial additional_zones \<in> set (snd ?run)"
    by (simp add: zones_run)
  from zone_sets_differ have differ: "azSet quietEnv zonesMoved ''z-1-a''
      \<noteq> azSetNew quietEnv zonesMoved ''z-1-a''"
    unfolding union new by simp
  from additional_zones_added_before_removed[OF run project location] recorded differ
  have "map fst (requestsOf additional_zones (snd ?run))
     = [locationsRequest (azSet quietEnv zonesMoved ''z-1-a''),
        locationsRequest (azSetNew quietEnv zonesMoved ''z-1-a'')]"
    by presburger
  with union new show ?thesis
    by simp
qed

text \<open>
  C10 as stated fails: in a zonal cluster the second request does not send exactly the new
  set of additional zones; it sends that set together with the zone of the cluster.
\<close>

theorem additional_zones_added_before_removed_counterexample:
  "map fst (requestsOf additional_zones
       (snd (resourceContainerClusterUpdate quietEnv zonesMoved [])))
     = [locationsRequest {''z-1-a'', ''z-1-c'', ''z-1-b''},
        locationsRequest {''z-1-a'', ''z-1-c''}]
   \<and> d_additional_zones zonesMoved = {''z-1-c''}
   \<and> locationsRequest {''z-1-a'', ''z-1-c''} \<noteq> locationsRequest (d_additional_zones zonesMoved)"
proof (intro conjI)
  show "map fst (requestsOf additional_zones
       (snd (resourceContainerClusterUpdate quietEnv zonesMoved [])))
     = [locationsRequest {''z-1-a'', ''z-1-c'', ''z-1-b''},
        locationsRequest {''z-1-a'', ''z-1-c''}]"
    by (simp add: zones_run requestsOf_def List.map_filter_def locationsRequest_def)
  show new: "d_additional_zones zonesMoved = {''z-1-c''}"
    by (simp add: zonesMoved_def)
  have "{''z-1-a'', ''z-1-c''} \<noteq> {''z-1-c''}"
  proof
    assume "{''z-1-a'', ''z-1-c''} = {''z-1-c''}"
    then have "''z-1-a'' \<in> {''z-1-c''}"
      by (rule subst) (rule insertI1)
    then show False
      by simp
  qed
  then show "locationsRequest {''z-1-a'', ''z-1-c''}
      \<noteq> locationsRequest (d_additional_zones zonesMoved)"
    unfolding new by (simp add: locationsRequest_def ClusterUpdate_def)
qed

section \<open>The lock across the three operations\<close>




section \<open>The retry of Delete\<close>




end
